theory Spec2Isabelle
  imports Main "HOL-Library.Sublist" "HOL-Library.Char_ord" "HOL-Library.List_Lexorder"
begin

section \<open>Python strings\<close>

text \<open>
  The generator \<^verbatim>\<open>generate_docs.py\<close> works on Python \<^verbatim>\<open>str\<close> values. A \<^verbatim>\<open>str\<close> is
  modelled as a \<^typ>\<open>string\<close>, one \<^typ>\<open>char\<close> per character, for texts whose code
  points are below 256. The character classes below are Python's on that range:
  \<^verbatim>\<open>str.isspace\<close> and the pattern class \<^verbatim>\<open>\s\<close> agree there, and \<^verbatim>\<open>\w\<close> is
  \<^verbatim>\<open>str.isalnum\<close> or the underscore.
\<close>

abbreviation NL :: char where
  "NL \<equiv> CHR 0x0A"

abbreviation TAB :: char where
  "TAB \<equiv> CHR 0x09"

definition is_space :: "char \<Rightarrow> bool" where
  "is_space c \<longleftrightarrow>
     c \<in> {CHR 0x09, CHR 0x0A, CHR 0x0B, CHR 0x0C, CHR 0x0D, CHR 0x1C, CHR 0x1D,
          CHR 0x1E, CHR 0x1F, CHR 0x20, CHR 0x85, CHR 0xA0}"

text \<open>The class \<^verbatim>\<open>[ \t]\<close>.\<close>

definition is_blank :: "char \<Rightarrow> bool" where
  "is_blank c \<longleftrightarrow> c = CHR '' '' \<or> c = TAB"

text \<open>The class \<^verbatim>\<open>\w\<close> of a \<^verbatim>\<open>str\<close> pattern, on code points below 256.\<close>

definition is_word :: "char \<Rightarrow> bool" where
  "is_word c \<longleftrightarrow>
     (let n = (of_char c :: nat) in
        (48 \<le> n \<and> n \<le> 57) \<or> (65 \<le> n \<and> n \<le> 90) \<or> n = 95 \<or> (97 \<le> n \<and> n \<le> 122) \<or>
        n = 170 \<or> n = 178 \<or> n = 179 \<or> n = 181 \<or> n = 185 \<or> n = 186 \<or>
        n = 188 \<or> n = 189 \<or> n = 190 \<or>
        (192 \<le> n \<and> n \<le> 214) \<or> (216 \<le> n \<and> n \<le> 246) \<or> 248 \<le> n)"

text \<open>\<^verbatim>\<open>s.lstrip()\<close>, \<^verbatim>\<open>s.rstrip()\<close> and \<^verbatim>\<open>s.strip()\<close>.\<close>

definition lstrip :: "string \<Rightarrow> string" where
  "lstrip s = dropWhile is_space s"

definition rstrip :: "string \<Rightarrow> string" where
  "rstrip s = rev (dropWhile is_space (rev s))"

definition strip :: "string \<Rightarrow> string" where
  "strip s = lstrip (rstrip s)"

text \<open>\<^verbatim>\<open>s.startswith(p)\<close>.\<close>

definition startswith :: "string \<Rightarrow> string \<Rightarrow> bool" where
  "startswith s p \<longleftrightarrow> prefix p s"

text \<open>\<^verbatim>\<open>sub in s\<close>: the substring test.\<close>

fun py_in :: "string \<Rightarrow> string \<Rightarrow> bool" where
  "py_in sub [] \<longleftrightarrow> sub = []"
| "py_in sub (c # cs) \<longleftrightarrow> prefix sub (c # cs) \<or> py_in sub cs"

text \<open>\<^verbatim>\<open>s.split(c)\<close> for a separator of one character: never an empty list.\<close>

fun split_on :: "char \<Rightarrow> string \<Rightarrow> string list" where
  "split_on sep [] = [[]]"
| "split_on sep (c # cs) =
     (if c = sep then [] # split_on sep cs
      else (case split_on sep cs of
              [] \<Rightarrow> [[c]]
            | w # ws \<Rightarrow> (c # w) # ws))"

text \<open>\<^verbatim>\<open>sep.join(xs)\<close>.\<close>

fun join :: "string \<Rightarrow> string list \<Rightarrow> string" where
  "join sep [] = []"
| "join sep [x] = x"
| "join sep (x # y # ys) = x @ sep @ join sep (y # ys)"

text \<open>
  \<^verbatim>\<open>s.replace(old, new)\<close> for a non-empty \<^verbatim>\<open>old\<close>: the occurrences are replaced
  from the left and do not overlap. The second argument counts the characters of the
  occurrence being skipped.
\<close>

fun replace_from :: "nat \<Rightarrow> string \<Rightarrow> string \<Rightarrow> string \<Rightarrow> string" where
  "replace_from skip old new [] = []"
| "replace_from skip old new (c # cs) =
     (if 0 < skip then replace_from (skip - 1) old new cs
      else if prefix old (c # cs) then new @ replace_from (length old - 1) old new cs
      else c # replace_from 0 old new cs)"

definition replace :: "string \<Rightarrow> string \<Rightarrow> string \<Rightarrow> string" where
  "replace s old new = replace_from 0 old new s"

text \<open>\<^verbatim>\<open>s.count('\n')\<close>.\<close>

definition count_nl :: "string \<Rightarrow> nat" where
  "count_nl s = count_list s NL"

section \<open>The function filter of \<^verbatim>\<open>parse_file\<close>\<close>

text \<open>
  The two \<^verbatim>\<open>continue\<close> statements that skip internal functions. \<^verbatim>\<open>is_local\<close> is the
  second group of the signature pattern, \<^verbatim>\<open>(local\s+)?\<close>: \<open>None\<close> when the group did not
  take part in the match, and otherwise the matched text, whose truth value in Python is
  that it is not empty.
\<close>

definition truthy :: "string option \<Rightarrow> bool" where
  "truthy v \<longleftrightarrow> (case v of None \<Rightarrow> False | Some s \<Rightarrow> s \<noteq> [])"

definition skip_local :: "string option \<Rightarrow> string \<Rightarrow> bool" where
  "skip_local is_local func_name \<longleftrightarrow>
     truthy is_local \<and> \<not> py_in ''.'' func_name \<and> \<not> py_in '':'' func_name"

definition skip_underscore :: "string \<Rightarrow> bool" where
  "skip_underscore func_name \<longleftrightarrow>
     py_in ''_'' func_name \<and> (startswith func_name ''_'' \<or> py_in ''._'' func_name)"

definition skip_internal :: "string option \<Rightarrow> string \<Rightarrow> bool" where
  "skip_internal is_local func_name \<longleftrightarrow>
     skip_local is_local func_name \<or> skip_underscore func_name"

section \<open>Function documentation in \<^verbatim>\<open>parse_file\<close>\<close>

record param =
  p_name :: string
  p_type :: string
  p_description :: string

record func_info =
  f_name :: string
  f_params :: "param list"
  f_returns :: string
  f_description :: string
  f_line :: nat

subsection \<open>Patterns\<close>

text \<open>
  Python's \<^verbatim>\<open>re\<close> matches by backtracking: a greedy repetition takes as much as it can and
  gives characters back one at a time while the rest of the pattern fails. Each pattern of
  the file is written out below as the function that returns what this search finds.

  \<^verbatim>\<open>ws_then_line\<close> is \<^verbatim>\<open>\s+([^\n]+)\<close>, and \<^verbatim>\<open>\s+(.+)\<close> which is the same without
  \<^verbatim>\<open>re.DOTALL\<close>, matched at the start of \<open>s\<close>; the result is the group. \<^verbatim>\<open>\s+\<close> takes the
  whole run of whitespace, newlines too. When a character follows the run, it is no
  whitespace and the group is the text from there to the end of the line. When the run
  ends the text, \<^verbatim>\<open>\s+\<close> gives characters back until the one after it is no newline, and
  the group is that one whitespace character.
\<close>

definition ws_then_line :: "string \<Rightarrow> string option" where
  "ws_then_line s =
     (let w = takeWhile is_space s; r = dropWhile is_space s in
        if w = [] then None
        else if r \<noteq> [] then Some (takeWhile (\<lambda>c. c \<noteq> NL) r)
        else (case filter (\<lambda>c. c \<noteq> NL) (tl w) of
                [] \<Rightarrow> None
              | x # xs \<Rightarrow> Some [last (x # xs)]))"

text \<open>
  \<^verbatim>\<open>re.match(r'@param\s+(\w+\??)\s+(\S+)(?:\s+(.+))?', line)\<close> with the three groups put
  in the dictionary appended to \<^verbatim>\<open>func_info['params']\<close>; a group 3 that is \<^verbatim>\<open>None\<close> becomes
  the empty string. No shorter choice of a greedy part can make a later part match: after
  fewer whitespace characters comes whitespace, after fewer word characters a word
  character.
\<close>

definition param_match :: "string \<Rightarrow> param option" where
  "param_match line =
     (let r0 = drop 6 line;
          w1 = takeWhile is_space r0; r1 = dropWhile is_space r0;
          nm = takeWhile is_word r1; r2 = dropWhile is_word r1;
          opt = prefix ''?'' r2;
          r3 = (if opt then drop 1 r2 else r2);
          w2 = takeWhile is_space r3; r4 = dropWhile is_space r3;
          ty = takeWhile (\<lambda>c. \<not> is_space c) r4; r5 = dropWhile (\<lambda>c. \<not> is_space c) r4
      in if prefix ''@param'' line \<and> w1 \<noteq> [] \<and> nm \<noteq> [] \<and> w2 \<noteq> [] \<and> ty \<noteq> []
         then Some \<lparr>p_name = (if opt then nm @ ''?'' else nm), p_type = ty,
                     p_description = (case ws_then_line r5 of None \<Rightarrow> [] | Some d \<Rightarrow> d)\<rparr>
         else None)"

text \<open>
  One comment line, \<^verbatim>\<open>[ \t]*---?.*?\n\<close>, at the start of \<open>s\<close>: the line with its newline
  and the text after it.
\<close>

definition comment_line :: "string \<Rightarrow> (string \<times> string) option" where
  "comment_line s =
     (let l = takeWhile (\<lambda>c. c \<noteq> NL) s @ [NL] in
        if prefix ''--'' (dropWhile is_blank s) \<and> NL \<in> set s
        then Some (l, drop (length l) s) else None)"

text \<open>
  The first group, \<^verbatim>\<open>((?:[ \t]*---?.*?\n)+)\<close>: the longest run of comment lines (empty
  when there is none) and the text after it. A shorter run is followed by a comment line,
  where the rest of the pattern cannot match.
\<close>

function comment_lines :: "string \<Rightarrow> string \<times> string" where
  "comment_lines [] = ([], [])"
| "comment_lines (c # cs) =
     (case comment_line (c # cs) of
        None \<Rightarrow> ([], c # cs)
      | Some (l, r) \<Rightarrow> (case comment_lines r of (b, r') \<Rightarrow> (l @ b, r')))"
  by pat_completeness auto
termination
  by (relation "measure length")
    (auto simp: comment_line_def Let_def split: if_splits)

text \<open>One blank line, \<^verbatim>\<open>[ \t]*\n\<close>, and the run \<^verbatim>\<open>(?:[ \t]*\n)*\<close> of them.\<close>

definition blank_line :: "string \<Rightarrow> (string \<times> string) option" where
  "blank_line s =
     (let l = takeWhile is_blank s @ [NL] in
        if prefix [NL] (dropWhile is_blank s) then Some (l, drop (length l) s) else None)"

function blank_lines :: "string \<Rightarrow> string \<times> string" where
  "blank_lines [] = ([], [])"
| "blank_lines (c # cs) =
     (case blank_line (c # cs) of
        None \<Rightarrow> ([], c # cs)
      | Some (l, r) \<Rightarrow> (case blank_lines r of (b, r') \<Rightarrow> (l @ b, r')))"
  by pat_completeness auto
termination
  by (relation "measure length")
    (auto simp: blank_line_def Let_def split: if_splits)

text \<open>The class \<^verbatim>\<open>[\w.:]\<close>.\<close>

definition is_name_char :: "char \<Rightarrow> bool" where
  "is_name_char c \<longleftrightarrow> is_word c \<or> c = CHR ''.'' \<or> c = CHR '':''"

text \<open>
  A match of the signature pattern: the four groups, with the offsets of the match, of
  the \<^verbatim>\<open>function\<close> keyword inside it and of its end.
\<close>

record func_match =
  fm_start :: nat
  fm_keyword :: nat
  fm_end :: nat
  fm_doc_block :: string
  fm_is_local :: "string option"
  fm_func_name :: string
  fm_params :: string

text \<open>
  The pattern is
  \<^verbatim>\<open>((?:[ \t]*---?.*?\n)+)(?:[ \t]*\n)*[ \t]*(local\s+)?function\s+([\w.:]+)\s*\((.*?)\)\<close>.
  After the comment lines and the blank lines each greedy part takes its whole run.

  \<^verbatim>\<open>local_group\<close> is the second group, \<^verbatim>\<open>(local\s+)?\<close>, at the start of \<open>s\<close>: it takes
  part exactly when the text goes on with \<^verbatim>\<open>local\<close> and whitespace (without it the text
  would have to go on with \<^verbatim>\<open>function\<close>).
\<close>

definition local_group :: "string \<Rightarrow> string option" where
  "local_group s =
     (let ws = takeWhile is_space (drop 5 s) in
        if prefix ''local'' s \<and> ws \<noteq> [] then Some (''local'' @ ws) else None)"

text \<open>
  \<^verbatim>\<open>function\s+([\w.:]+)\s*\((.*?)\)\<close> at the start of \<open>s\<close>: the groups 3 and 4 and the
  text after the match. The lazy \<^verbatim>\<open>(.*?)\<close> stops at the first closing parenthesis, which
  has to come before the end of the line.
\<close>

definition signature_at :: "string \<Rightarrow> (string \<times> string \<times> string) option" where
  "signature_at s =
     (let fws = takeWhile is_space (drop 8 s);
          r5 = dropWhile is_space (drop 8 s);
          func_name = takeWhile is_name_char r5;
          r7 = dropWhile is_space (dropWhile is_name_char r5);
          params = takeWhile (\<lambda>c. c \<noteq> CHR '')'' \<and> c \<noteq> NL) (drop 1 r7);
          r8 = dropWhile (\<lambda>c. c \<noteq> CHR '')'' \<and> c \<noteq> NL) (drop 1 r7)
      in if prefix ''function'' s \<and> fws \<noteq> [] \<and> func_name \<noteq> [] \<and> prefix ''('' r7 \<and>
            prefix '')'' r8
         then Some (func_name, params, drop 1 r8) else None)"

text \<open>The whole pattern matched at the start of \<open>s\<close>, offsets counted from there.\<close>

definition func_match_at :: "string \<Rightarrow> func_match option" where
  "func_match_at s =
     (case comment_lines s of (doc_block, r1) \<Rightarrow>
      case blank_lines r1 of (blanks, r2) \<Rightarrow>
        let r3 = dropWhile is_blank r2;
            is_local = local_group r3;
            r4 = drop (case is_local of None \<Rightarrow> 0 | Some l \<Rightarrow> length l) r3
        in case signature_at r4 of
             None \<Rightarrow> None
           | Some (func_name, params, rest) \<Rightarrow>
               if doc_block = [] then None
               else Some \<lparr>fm_start = 0, fm_keyword = length s - length r4,
                          fm_end = length s - length rest, fm_doc_block = doc_block,
                          fm_is_local = is_local, fm_func_name = func_name,
                          fm_params = params\<rparr>)"

text \<open>
  \<^verbatim>\<open>re.finditer(func_pattern, content, re.MULTILINE)\<close>: the matches from left to right,
  each search starting where the last match ended. \<open>pos\<close> is the offset of the text left
  and \<open>skip\<close> the number of its characters that belong to the last match.
\<close>

fun finditer_from :: "nat \<Rightarrow> nat \<Rightarrow> string \<Rightarrow> func_match list" where
  "finditer_from pos skip [] = []"
| "finditer_from pos skip (c # cs) =
     (if 0 < skip then finditer_from (Suc pos) (skip - 1) cs
      else (case func_match_at (c # cs) of
              None \<Rightarrow> finditer_from (Suc pos) 0 cs
            | Some m \<Rightarrow>
                m\<lparr>fm_start := pos, fm_keyword := pos + fm_keyword m, fm_end := pos + fm_end m\<rparr>
                  # finditer_from (Suc pos) (fm_end m - 1) cs))"

definition finditer :: "string \<Rightarrow> func_match list" where
  "finditer content = finditer_from 0 0 content"

subsection \<open>The comment block of a function\<close>

text \<open>
  The head of the loop body over \<^verbatim>\<open>doc_block.split('\n')\<close>: the line without its comment
  marker, or \<open>None\<close> where the loop goes on to the next line.
\<close>

definition clean_doc_line :: "string \<Rightarrow> string option" where
  "clean_doc_line raw =
     (let line = strip raw in
        if startswith line ''---'' then Some (strip (drop 3 line))
        else if startswith line ''--'' then Some (strip (drop 2 line))
        else None)"

text \<open>The rest of the loop body, on \<^verbatim>\<open>func_info\<close> and \<^verbatim>\<open>desc_lines\<close>.\<close>

definition doc_line :: "func_info \<times> string list \<Rightarrow> string \<Rightarrow> func_info \<times> string list" where
  "doc_line st raw =
     (case clean_doc_line raw of
        None \<Rightarrow> st
      | Some line \<Rightarrow>
          if startswith line ''@param'' then
            (case param_match line of
               Some p \<Rightarrow> ((fst st)\<lparr>f_params := f_params (fst st) @ [p]\<rparr>, snd st)
             | None \<Rightarrow> st)
          else if startswith line ''@return'' then
            ((fst st)\<lparr>f_returns := strip (replace line ''@return'' [])\<rparr>, snd st)
          else if \<not> startswith line ''@'' then (fst st, snd st @ [line])
          else st)"

definition parse_doc :: "func_info \<Rightarrow> string \<Rightarrow> func_info" where
  "parse_doc func_info doc_block =
     (case foldl doc_line (func_info, []) (split_on NL doc_block) of
        (fi, desc_lines) \<Rightarrow> fi\<lparr>f_description := join '' '' desc_lines\<rparr>)"

text \<open>The truth value of \<^verbatim>\<open>func_info['description'] or func_info['params'] or func_info['returns']\<close>.\<close>

definition documented :: "func_info \<Rightarrow> bool" where
  "documented fi \<longleftrightarrow> f_description fi \<noteq> [] \<or> f_params fi \<noteq> [] \<or> f_returns fi \<noteq> []"

text \<open>
  \<^verbatim>\<open>content[:offset].count('\n') + 1\<close>, the number of the line that holds the offset,
  counted from 1.
\<close>

definition line_of :: "string \<Rightarrow> nat \<Rightarrow> nat" where
  "line_of content offset = count_nl (take offset content) + 1"

text \<open>The record a match gives before the final test, and the body of the loop over the matches.\<close>

definition make_func :: "string \<Rightarrow> func_match \<Rightarrow> func_info" where
  "make_func content m =
     parse_doc
       \<lparr>f_name = fm_func_name m, f_params = [], f_returns = [], f_description = [],
        f_line = line_of content (fm_start m)\<rparr>
       (fm_doc_block m)"

fun extract_functions :: "string \<Rightarrow> func_match list \<Rightarrow> func_info list" where
  "extract_functions content [] = []"
| "extract_functions content (m # ms) =
     (if skip_local (fm_is_local m) (fm_func_name m) then extract_functions content ms
      else if skip_underscore (fm_func_name m) then extract_functions content ms
      else if documented (make_func content m)
           then make_func content m # extract_functions content ms
      else extract_functions content ms)"

definition parse_functions :: "string \<Rightarrow> func_info list" where
  "parse_functions content = extract_functions content (finditer content)"

section \<open>Module documentation in \<^verbatim>\<open>parse_file\<close>\<close>

record module =
  m_name :: string
  m_path :: string
  m_description :: string
  m_examples :: "string list"
  m_functions :: "func_info list"
  m_version :: "string option"
  m_author :: "string option"
  m_license :: "string option"

subsection \<open>The block comment and its tags\<close>

text \<open>The first occurrence of \<open>sub\<close> in a text: the text before it and the text after it.\<close>

fun find_sub :: "string \<Rightarrow> string \<Rightarrow> (string \<times> string) option" where
  "find_sub sub [] = (if sub = [] then Some ([], []) else None)"
| "find_sub sub (c # cs) =
     (if prefix sub (c # cs) then Some ([], drop (length sub) (c # cs))
      else (case find_sub sub cs of
              None \<Rightarrow> None
            | Some (before, after) \<Rightarrow> Some (c # before, after)))"

text \<open>
  Group 1 of \<^verbatim>\<open>re.search(r'--\[\[(.*?)\]\]', content, re.DOTALL)\<close>: the text between
  the first \<^verbatim>\<open>--[[\<close> and the first \<^verbatim>\<open>]]\<close> after it; \<open>None\<close> when the search finds nothing.
\<close>

definition block_match :: "string \<Rightarrow> string option" where
  "block_match content =
     (case find_sub ''--[['' content of
        None \<Rightarrow> None
      | Some (before, r) \<Rightarrow>
          (case find_sub '']]'' r of
             None \<Rightarrow> None
           | Some (block, after) \<Rightarrow> Some block))"

text \<open>
  Group 1 of \<^verbatim>\<open>re.search(tag + r'\s+([^\n]+)', block)\<close> for the tags \<^verbatim>\<open>@version\<close>,
  \<^verbatim>\<open>@author\<close> and \<^verbatim>\<open>@license\<close>: the match at the leftmost place where there is one.
\<close>

fun tag_search :: "string \<Rightarrow> string \<Rightarrow> string option" where
  "tag_search tag [] = None"
| "tag_search tag (c # cs) =
     (if prefix tag (c # cs) then
        (case ws_then_line (drop (length tag) (c # cs)) of
           Some g \<Rightarrow> Some g
         | None \<Rightarrow> tag_search tag cs)
      else tag_search tag cs)"

text \<open>The field a tag gives: \<^verbatim>\<open>match.group(1).strip()\<close>, or \<^verbatim>\<open>None\<close> as set at the start.\<close>

definition tag_value :: "string \<Rightarrow> string \<Rightarrow> string option" where
  "tag_value tag block = map_option strip (tag_search tag block)"

text \<open>
  The value of a tag as the specification words it: the trimmed remainder of the line
  after the first occurrence of the tag keyword.
\<close>

definition spec_tag_value :: "string \<Rightarrow> string \<Rightarrow> string option" where
  "spec_tag_value tag block =
     (case find_sub tag block of
        None \<Rightarrow> None
      | Some (before, after) \<Rightarrow> Some (strip (takeWhile (\<lambda>c. c \<noteq> NL) after)))"

text \<open>
  The leftmost place of a text where the tag keyword is followed by a whitespace
  character: the text after the keyword there.
\<close>

fun find_tag :: "string \<Rightarrow> string \<Rightarrow> string option" where
  "find_tag tag [] = None"
| "find_tag tag (c # cs) =
     (if prefix tag (c # cs) \<and>
         (case drop (length tag) (c # cs) of [] \<Rightarrow> False | x # r \<Rightarrow> is_space x)
      then Some (drop (length tag) (c # cs))
      else find_tag tag cs)"

text \<open>
  The loop over \<^verbatim>\<open>block.split('\n')\<close> that collects \<^verbatim>\<open>desc_lines\<close>; the first argument
  is \<^verbatim>\<open>in_description\<close>. The result is what the loop appends from the lines left.
\<close>

fun desc_loop :: "bool \<Rightarrow> string list \<Rightarrow> string list" where
  "desc_loop in_description [] = []"
| "desc_loop in_description (raw # rest) =
     (let line = strip raw in
        if \<not> in_description \<and> line \<noteq> [] \<and> \<not> startswith line ''@'' then desc_loop True rest
        else if in_description then
          (if startswith line ''@'' then []
           else if line \<noteq> [] then line # desc_loop True rest
           else desc_loop True rest)
        else desc_loop in_description rest)"

definition block_description :: "string \<Rightarrow> string" where
  "block_description block = strip (join '' '' (desc_loop False (split_on NL block)))"

text \<open>
  The condition as the specification words it: the first line of the body that is not
  empty starts with a tag.
\<close>

definition first_nonempty_is_tag :: "string \<Rightarrow> bool" where
  "first_nonempty_is_tag block \<longleftrightarrow>
     (case dropWhile (\<lambda>l. l = []) (map strip (split_on NL block)) of
        [] \<Rightarrow> False
      | l # ls \<Rightarrow> startswith l ''@'')"

subsection \<open>The fallbacks\<close>

text \<open>
  \<^verbatim>\<open>re.search(r'version\s*=\s*["\']([^"\']+)["\']', content, re.IGNORECASE)\<close>. On
  code points below 256 the flag lets a letter of the pattern match itself and its
  upper-case form.
\<close>

definition is_quote :: "char \<Rightarrow> bool" where
  "is_quote c \<longleftrightarrow> c = CHR 0x22 \<or> c = CHR 0x27"

definition ieq :: "char \<Rightarrow> char \<Rightarrow> bool" where
  "ieq p c \<longleftrightarrow> c = p \<or> (of_char c + 32 = (of_char p :: nat) \<and> 65 \<le> (of_char c :: nat) \<and>
     (of_char c :: nat) \<le> 90)"

fun iprefix :: "string \<Rightarrow> string \<Rightarrow> bool" where
  "iprefix [] s \<longleftrightarrow> True"
| "iprefix (p # ps) [] \<longleftrightarrow> False"
| "iprefix (p # ps) (c # cs) \<longleftrightarrow> ieq p c \<and> iprefix ps cs"

text \<open>The pattern matched at the start of \<open>s\<close>; the result is the group, the quoted literal.\<close>

definition version_assign_at :: "string \<Rightarrow> string option" where
  "version_assign_at s =
     (let r1 = dropWhile is_space (drop 7 s);
          r2 = dropWhile is_space (drop 1 r1);
          lit = takeWhile (\<lambda>c. \<not> is_quote c) (drop 1 r2);
          r3 = dropWhile (\<lambda>c. \<not> is_quote c) (drop 1 r2)
      in if iprefix ''version'' s \<and> prefix ''='' r1 \<and>
            (case r2 of [] \<Rightarrow> False | q # _ \<Rightarrow> is_quote q) \<and> lit \<noteq> [] \<and> r3 \<noteq> []
         then Some lit else None)"

fun version_search :: "string \<Rightarrow> string option" where
  "version_search [] = None"
| "version_search (c # cs) =
     (case version_assign_at (c # cs) of
        Some lit \<Rightarrow> Some lit
      | None \<Rightarrow> version_search cs)"

text \<open>
  The loop over \<^verbatim>\<open>content.split('\n')\<close> that collects the description from the \<^verbatim>\<open>---\<close>
  comments; the first argument is \<^verbatim>\<open>desc_lines\<close> so far, the result \<^verbatim>\<open>desc_lines\<close>
  when the loop is left.
\<close>

fun line_desc_loop :: "string list \<Rightarrow> string list \<Rightarrow> string list" where
  "line_desc_loop desc_lines [] = desc_lines"
| "line_desc_loop desc_lines (line # rest) =
     (if startswith line ''---'' then
        (let cleaned = strip (drop 3 line) in
           if startswith cleaned ''@'' then desc_lines
           else if cleaned \<noteq> [] then line_desc_loop (desc_lines @ [cleaned]) rest
           else line_desc_loop desc_lines rest)
      else if desc_lines \<noteq> [] then desc_lines
      else line_desc_loop desc_lines rest)"

definition line_description :: "string \<Rightarrow> string" where
  "line_description content =
     (let desc_lines = line_desc_loop [] (split_on NL content) in
        if desc_lines \<noteq> [] then join '' '' desc_lines else [])"

subsection \<open>Examples\<close>

text \<open>
  \<^verbatim>\<open>re.split(r'@example\s*\n', block)\<close>. A separator is \<^verbatim>\<open>@example\<close> with the run of
  whitespace after it up to the last newline of the run; \<^verbatim>\<open>example_sep_len\<close> is its
  length when the text starts with one. The first argument of \<^verbatim>\<open>split_examples\<close> counts
  the characters of the separator being skipped.
\<close>

definition example_sep_len :: "string \<Rightarrow> nat option" where
  "example_sep_len s =
     (let w = takeWhile is_space (drop 8 s) in
        if prefix ''@example'' s \<and> NL \<in> set w
        then Some (8 + length w - length (takeWhile (\<lambda>c. c \<noteq> NL) (rev w)))
        else None)"

fun split_examples :: "nat \<Rightarrow> string \<Rightarrow> string list" where
  "split_examples skip [] = [[]]"
| "split_examples skip (c # cs) =
     (if 0 < skip then split_examples (skip - 1) cs
      else (case example_sep_len (c # cs) of
              Some n \<Rightarrow> [] # split_examples (n - 1) cs
            | None \<Rightarrow>
                (case split_examples 0 cs of
                   [] \<Rightarrow> [[c]]
                 | p # ps \<Rightarrow> (c # p) # ps)))"

text \<open>
  Group 1 of
  \<^verbatim>\<open>re.match(r'((?:(?!@(?:module|author|version|license)\b).*\n?)*)', part, re.MULTILINE | re.DOTALL)\<close>.
  With \<^verbatim>\<open>re.DOTALL\<close> the first \<^verbatim>\<open>.*\<close> takes the whole part, so the group is the part,
  unless the look-ahead fails at its start: then the group is empty. The look-ahead fails
  where one of the four tags stands, followed by no word character.
\<close>

definition module_tag_ahead :: "string \<Rightarrow> bool" where
  "module_tag_ahead s \<longleftrightarrow>
     list_ex (\<lambda>tag. prefix (''@'' @ tag) s \<and>
                (case drop (Suc (length tag)) s of [] \<Rightarrow> True | c # _ \<Rightarrow> \<not> is_word c))
       [''module'', ''author'', ''version'', ''license'']"

definition example_text :: "string \<Rightarrow> string" where
  "example_text part = (if module_tag_ahead part then [] else part)"

text \<open>
  The loop that finds \<^verbatim>\<open>min_indent\<close>; \<open>None\<close> is \<^verbatim>\<open>float('inf')\<close>.
\<close>

definition indent_of :: "string \<Rightarrow> nat" where
  "indent_of line = length line - length (lstrip line)"

fun min_indent_loop :: "nat option \<Rightarrow> string list \<Rightarrow> nat option" where
  "min_indent_loop min_indent [] = min_indent"
| "min_indent_loop min_indent (line # rest) =
     (if strip line \<noteq> [] then
        min_indent_loop
          (case min_indent of
             None \<Rightarrow> Some (indent_of line)
           | Some n \<Rightarrow> Some (min n (indent_of line))) rest
      else min_indent_loop min_indent rest)"

text \<open>The \<^verbatim>\<open>result\<close> of an example text that is not blank.\<close>

definition clean_example :: "string \<Rightarrow> string" where
  "clean_example text =
     (let lines = split_on NL text;
          cleaned_lines =
            (case min_indent_loop None lines of
               None \<Rightarrow> lines
             | Some n \<Rightarrow>
                 if 0 < n then map (\<lambda>line. if n \<le> length line then drop n line else line) lines
                 else lines)
      in strip (join [NL] cleaned_lines))"

text \<open>
  The normal form of a segment as the specification words it: the smallest indentation
  of the lines that are not blank is taken off every line, and the blank lines at both
  ends are dropped.
\<close>

definition spec_clean_example :: "string \<Rightarrow> string" where
  "spec_clean_example segment =
     (let lines = split_on NL segment;
          nonblank = filter (\<lambda>l. strip l \<noteq> []) lines;
          n = (if nonblank = [] then 0 else min_list (map indent_of nonblank));
          dedented = map (drop n) lines
      in join [NL]
           (rev (dropWhile (\<lambda>l. strip l = [])
              (rev (dropWhile (\<lambda>l. strip l = []) dedented)))))"

text \<open>The body of the loop over the parts after the first: what it appends.\<close>

definition example_of_part :: "string \<Rightarrow> string list" where
  "example_of_part part =
     (if strip (example_text part) \<noteq> [] then
        (if clean_example (example_text part) \<noteq> [] then [clean_example (example_text part)]
         else [])
      else [])"

definition block_examples :: "string \<Rightarrow> string list" where
  "block_examples block = concat (map example_of_part (drop 1 (split_examples 0 block)))"

text \<open>
  The \<^verbatim>\<open>@usage\<close> examples: \<^verbatim>\<open>re.finditer(r'---@usage\s*\n((?:---[^@].*?\n)+)', content)\<close>.
  The whitespace after \<^verbatim>\<open>---@usage\<close> has to end with a newline, right before the first
  \<^verbatim>\<open>---\<close>. One repetition of the group is \<^verbatim>\<open>---\<close>, a character other than \<^verbatim>\<open>@\<close> (it may
  be a newline) and the text up to the next newline.
\<close>

definition usage_line :: "string \<Rightarrow> (string \<times> string) option" where
  "usage_line s =
     (let l = take 4 s @ takeWhile (\<lambda>c. c \<noteq> NL) (drop 4 s) @ [NL] in
        if prefix ''---'' s \<and> (case drop 3 s of [] \<Rightarrow> False | c # _ \<Rightarrow> c \<noteq> CHR ''@'') \<and>
           NL \<in> set (drop 4 s)
        then Some (l, drop (length l) s) else None)"

function usage_lines :: "string \<Rightarrow> string \<times> string" where
  "usage_lines [] = ([], [])"
| "usage_lines (c # cs) =
     (case usage_line (c # cs) of
        None \<Rightarrow> ([], c # cs)
      | Some (l, r) \<Rightarrow> (case usage_lines r of (b, r') \<Rightarrow> (l @ b, r')))"
  by pat_completeness auto
termination
  by (relation "measure length")
    (auto simp: usage_line_def Let_def split: if_splits)

text \<open>The pattern at the start of \<open>s\<close>: the group and the length of the match.\<close>

definition usage_match_at :: "string \<Rightarrow> (string \<times> nat) option" where
  "usage_match_at s =
     (let w = takeWhile is_space (drop 9 s) in
        case usage_lines (dropWhile is_space (drop 9 s)) of (example_block, rest) \<Rightarrow>
          if prefix ''---@usage'' s \<and> w \<noteq> [] \<and> last w = NL \<and> example_block \<noteq> []
          then Some (example_block, length s - length rest) else None)"

fun usage_finditer :: "nat \<Rightarrow> string \<Rightarrow> string list" where
  "usage_finditer skip [] = []"
| "usage_finditer skip (c # cs) =
     (if 0 < skip then usage_finditer (skip - 1) cs
      else (case usage_match_at (c # cs) of
              None \<Rightarrow> usage_finditer 0 cs
            | Some (example_block, n) \<Rightarrow> example_block # usage_finditer (n - 1) cs))"

text \<open>The loop over the lines of one \<^verbatim>\<open>example_block\<close>, and what a match appends.\<close>

fun usage_example_lines :: "string list \<Rightarrow> string list" where
  "usage_example_lines [] = []"
| "usage_example_lines (line # rest) =
     (if startswith line ''---'' then
        (let cleaned0 = drop 3 line;
             cleaned = (if startswith cleaned0 '' '' then drop 1 cleaned0 else cleaned0)
         in if cleaned \<noteq> [] \<and> \<not> startswith (lstrip cleaned) ''@''
            then cleaned # usage_example_lines rest
            else usage_example_lines rest)
      else usage_example_lines rest)"

definition usage_example :: "string \<Rightarrow> string list" where
  "usage_example example_block =
     (let example_lines = usage_example_lines (split_on NL example_block) in
        if example_lines \<noteq> [] then [join [NL] example_lines] else [])"

definition usage_examples :: "string \<Rightarrow> string list" where
  "usage_examples content = concat (map usage_example (usage_finditer 0 content))"

subsection \<open>\<^verbatim>\<open>parse_file\<close>\<close>

text \<open>
  \<^verbatim>\<open>parse_file\<close> on the path of the file relative to the input directory and on its
  content. The entry \<^verbatim>\<open>filename\<close> of the dictionary, which nothing reads, is left out.
  \<open>version0\<close> and \<open>description0\<close> are the entries after the block comment has been looked
  at, before the fallbacks.
\<close>

definition parse_file :: "string \<Rightarrow> string \<Rightarrow> module" where
  "parse_file rel_path content =
     (let block_m = block_match content;
          version0 = (case block_m of None \<Rightarrow> None | Some block \<Rightarrow> tag_value ''@version'' block);
          author = (case block_m of None \<Rightarrow> None | Some block \<Rightarrow> tag_value ''@author'' block);
          license = (case block_m of None \<Rightarrow> None | Some block \<Rightarrow> tag_value ''@license'' block);
          description0 = (case block_m of None \<Rightarrow> [] | Some block \<Rightarrow> block_description block);
          version =
            (if \<not> truthy version0 then
               (case version_search content of Some lit \<Rightarrow> Some lit | None \<Rightarrow> version0)
             else version0);
          description = (if description0 = [] then line_description content else description0);
          examples =
            (case block_m of None \<Rightarrow> [] | Some block \<Rightarrow> block_examples block)
            @ usage_examples content
      in \<lparr>m_name = replace (replace rel_path ''.lua'' []) ''/'' ''.'',
          m_path = rel_path,
          m_description = description,
          m_examples = examples,
          m_functions = parse_functions content,
          m_version = version,
          m_author = author,
          m_license = license\<rparr>)"

section \<open>The module page\<close>

text \<open>
  The page templates hold three characters outside the range of the model, U+2190,
  U+2192 and U+2022. Each is written as the bytes of its UTF-8 form, in which the pages
  are saved; no function looks into the text of a page.
\<close>

abbreviation SQ :: char where
  "SQ \<equiv> CHR 0x27"

definition LARR :: string where
  "LARR = [CHR 0xE2, CHR 0x86, CHR 0x90]"

definition RARR :: string where
  "RARR = [CHR 0xE2, CHR 0x86, CHR 0x92]"

definition BULLET :: string where
  "BULLET = [CHR 0xE2, CHR 0x80, CHR 0xA2]"

text \<open>
  The fixed text of the first template of \<^verbatim>\<open>generate_html_module\<close>: up to the name in the
  title, and from there (with the style sheet) to the name in the heading.
\<close>

definition module_head_a :: string where
  "module_head_a =
     concat
     [''<!DOCTYPE html>\<newline>'',
      ''<html lang=\"en\">\<newline>'',
      ''<head>\<newline>'',
      ''    <meta charset=\"UTF-8\">\<newline>'',
      ''    <meta name=\"viewport\" content=\"width=device-width, initial-scale=1.0\">\<newline>'',
      ''    <title>'']"

definition module_head_b :: string where
  "module_head_b =
     concat
     ['' - TAC Documentation</title>\<newline>'',
      ''    <link href=\"https://cdnjs.cloudflare.com/ajax/libs/prism/1.29.0/themes/prism-tomorrow.min.css\" rel=\"stylesheet\" />\<newline>'',
      ''    <style>\<newline>'',
      ''        :root {\<newline>'',
      ''            --bg: #ffffff;\<newline>'',
      ''            --text: #1a1a1a;\<newline>'',
      ''            --link: #0066cc;\<newline>'',
      ''            --border: #e0e0e0;\<newline>'',
      ''            --code-bg: #f5f5f5;\<newline>'',
      ''        }\<newline>'',
      ''        @media (prefers-color-scheme: dark) {\<newline>'',
      ''            :root {\<newline>'',
      ''                --bg: #1a1a1a;\<newline>'',
      ''                --text: #e0e0e0;\<newline>'',
      ''                --link: #4d9fff;\<newline>'',
      ''                --border: #333333;\<newline>'',
      ''                --code-bg: #2a2a2a;\<newline>'',
      ''            }\<newline>'',
      ''        }\<newline>'',
      ''        * {\<newline>'',
      ''            margin: 0;\<newline>'',
      ''            padding: 0;\<newline>'',
      ''            box-sizing: border-box;\<newline>'',
      ''        }\<newline>'',
      ''        body {\<newline>'',
      ''            font-family: -apple-system, BlinkMacSystemFont, 'Segoe UI', Roboto, sans-serif;\<newline>'',
      ''            line-height: 1.6;\<newline>'',
      ''            color: var(--text);\<newline>'',
      ''            background: var(--bg);\<newline>'',
      ''            padding: 2rem;\<newline>'',
      ''            max-width: 1200px;\<newline>'',
      ''            margin: 0 auto;\<newline>'',
      ''        }\<newline>'',
      ''        .header {\<newline>'',
      ''            border-bottom: 2px solid var(--border);\<newline>'',
      ''            padding-bottom: 1.5rem;\<newline>'',
      ''            margin-bottom: 2rem;\<newline>'',
      ''        }\<newline>'',
      ''        .header h1 {\<newline>'',
      ''            margin-bottom: 1rem;\<newline>'',
      ''            font-size: 2.5rem;\<newline>'',
      ''        }\<newline>'',
      ''        .header p {\<newline>'',
      ''            font-size: 1.1rem;\<newline>'',
      ''            line-height: 1.8;\<newline>'',
      ''            opacity: 0.9;\<newline>'',
      ''        }\<newline>'',
      ''        .metadata {\<newline>'',
      ''            font-size: 0.9rem;\<newline>'',
      ''            opacity: 0.8;\<newline>'',
      ''            margin-top: 0.5rem;\<newline>'',
      ''        }\<newline>'',
      ''        h2 {\<newline>'',
      ''            margin-top: 3rem;\<newline>'',
      ''            margin-bottom: 1.5rem;\<newline>'',
      ''            padding-bottom: 0.5rem;\<newline>'',
      ''            border-bottom: 1px solid var(--border);\<newline>'',
      ''            font-size: 1.8rem;\<newline>'',
      ''        }\<newline>'',
      ''        h3 {\<newline>'',
      ''            margin-top: 1.5rem;\<newline>'',
      ''            margin-bottom: 0.75rem;\<newline>'',
      ''            font-size: 1.3rem;\<newline>'',
      ''        }\<newline>'',
      ''        code {\<newline>'',
      ''            background: var(--code-bg);\<newline>'',
      ''            padding: 0.2rem 0.4rem;\<newline>'',
      ''            border-radius: 3px;\<newline>'',
      ''            font-family: 'Monaco', 'Courier New', monospace;\<newline>'',
      ''            font-size: 0.9em;\<newline>'',
      ''        }\<newline>'',
      ''        pre {\<newline>'',
      ''            padding: 1rem;\<newline>'',
      ''            border-radius: 4px;\<newline>'',
      ''            overflow-x: auto;\<newline>'',
      ''            margin: 1rem 0;\<newline>'',
      ''            border: 1px solid var(--border);\<newline>'',
      ''        }\<newline>'',
      ''        pre code {\<newline>'',
      ''            background: none;\<newline>'',
      ''            padding: 0;\<newline>'',
      ''            font-size: 0.95em;\<newline>'',
      ''        }\<newline>'',
      ''        .function:not(.token) {\<newline>'',
      ''            margin: 2rem 0;\<newline>'',
      ''            padding: 1.5rem;\<newline>'',
      ''            border: 1px solid var(--border);\<newline>'',
      ''            border-radius: 6px;\<newline>'',
      ''        }\<newline>'',
      ''        .function h3 {\<newline>'',
      ''            margin-top: 0;\<newline>'',
      ''        }\<newline>'',
      ''        .function > p {\<newline>'',
      ''            margin: 1rem 0;\<newline>'',
      ''            line-height: 1.7;\<newline>'',
      ''        }\<newline>'',
      ''        .params, .returns {\<newline>'',
      ''            margin-top: 1rem;\<newline>'',
      ''        }\<newline>'',
      ''        .params ul, .returns ul {\<newline>'',
      ''            list-style: none;\<newline>'',
      ''            padding-left: 0;\<newline>'',
      ''        }\<newline>'',
      ''        .params li, .returns li {\<newline>'',
      ''            padding: 0.5rem 0;\<newline>'',
      ''            padding-left: 1rem;\<newline>'',
      ''            border-left: 3px solid var(--border);\<newline>'',
      ''            margin: 0.25rem 0;\<newline>'',
      ''        }\<newline>'',
      ''        a {\<newline>'',
      ''            color: var(--link);\<newline>'',
      ''            text-decoration: none;\<newline>'',
      ''        }\<newline>'',
      ''        a:hover {\<newline>'',
      ''            text-decoration: underline;\<newline>'',
      ''        }\<newline>'',
      ''        .back-link {\<newline>'',
      ''            margin-bottom: 1.5rem;\<newline>'',
      ''            font-size: 0.95rem;\<newline>'',
      ''        }\<newline>'',
      ''        .version-badge {\<newline>'',
      ''            display: inline-block;\<newline>'',
      ''            background: #2a3540;\<newline>'',
      ''            color: #8b949e;\<newline>'',
      ''            padding: 0.2rem 0.5rem;\<newline>'',
      ''            border-radius: 3px;\<newline>'',
      ''            font-size: 0.75em;\<newline>'',
      ''            font-weight: 500;\<newline>'',
      ''            margin-left: 1rem;\<newline>'',
      ''            vertical-align: middle;\<newline>'',
      ''        }\<newline>'',
      ''        .github-link {\<newline>'',
      ''            display: inline-block;\<newline>'',
      ''            padding: 0.5rem 1rem;\<newline>'',
      ''            background: var(--link);\<newline>'',
      ''            color: white;\<newline>'',
      ''            border: 1px solid var(--link);\<newline>'',
      ''            border-radius: 4px;\<newline>'',
      ''            text-decoration: none;\<newline>'',
      ''            font-size: 0.9em;\<newline>'',
      ''            transition: all 0.2s;\<newline>'',
      ''            margin-top: 1rem;\<newline>'',
      ''        }\<newline>'',
      ''        .github-link:hover {\<newline>'',
      ''            opacity: 0.85;\<newline>'',
      ''            text-decoration: none;\<newline>'',
      ''        }\<newline>'',
      ''    </style>\<newline>'',
      ''</head>\<newline>'',
      ''<body>\<newline>'',
      ''    <div class=\"back-link\"><a href=\"index.html\">'' @ LARR @ '' Back to index</a></div>\<newline>'',
      ''    <div class=\"header\">\<newline>'',
      ''        <h1>'']"

definition module_foot :: string where
  "module_foot =
     concat
     [''</body>\<newline>'',
      ''<script src=\"https://cdnjs.cloudflare.com/ajax/libs/prism/1.29.0/prism.min.js\"></script>\<newline>'',
      ''<script src=\"https://cdnjs.cloudflare.com/ajax/libs/prism/1.29.0/components/prism-lua.min.js\"></script>\<newline>'',
      ''</html>\<newline>'']"

text \<open>\<^verbatim>\<open>text.replace('<', '&lt;').replace('>', '&gt;')\<close>.\<close>

definition escape_angle :: "string \<Rightarrow> string" where
  "escape_angle text = replace (replace text ''<'' ''&lt;'') ''>'' ''&gt;''"

text \<open>How an f-string prints a line number.\<close>

fun digits_of :: "nat \<Rightarrow> string" where
  "digits_of n =
     (if n < 10 then [char_of (48 + n)]
      else digits_of (n div 10) @ [char_of (48 + n mod 10)])"

text \<open>
  An optional entry as a text: the truth value of \<^verbatim>\<open>module.get(key)\<close> is \<^verbatim>\<open>truthy\<close>, and
  the entry is printed only where it is true.
\<close>

definition opt_text :: "string option \<Rightarrow> string" where
  "opt_text v = (case v of None \<Rightarrow> [] | Some s \<Rightarrow> s)"

definition github_url :: "module \<Rightarrow> string" where
  "github_url m = ''https://github.com/Twijn/tac/blob/main/'' @ m_path m"

definition module_version_badge :: "module \<Rightarrow> string" where
  "module_version_badge m =
     (if truthy (m_version m)
      then '' <span class=\"version-badge\">v'' @ opt_text (m_version m) @ ''</span>''
      else [])"

text \<open>The author and license line.\<close>

definition metadata_html :: "module \<Rightarrow> string" where
  "metadata_html m =
     (if truthy (m_author m) \<or> truthy (m_license m) then
        ''        <div class='metadata'>'' @
        (if truthy (m_author m) then '' Author: '' @ opt_text (m_author m) else []) @
        (if truthy (m_license m) then '' '' @ BULLET @ '' License: '' @ opt_text (m_license m)
         else []) @
        ''</div>\<newline>''
      else [])"

definition github_link_html :: "module \<Rightarrow> string" where
  "github_link_html m =
     ''        <a href=\"'' @ github_url m @
     ''\" class=\"github-link\" target=\"_blank\">View on GitHub '' @ RARR @ ''</a>\<newline>'' @
     ''    </div>\<newline>''"

text \<open>The body of the loop over the examples, and the section.\<close>

definition example_html :: "string \<Rightarrow> string" where
  "example_html example =
     ''    <pre><code class='language-lua'>'' @ escape_angle example @ ''</code></pre>\<newline>''"

definition examples_html :: "module \<Rightarrow> string" where
  "examples_html m =
     (if m_examples m \<noteq> [] then
        ''    <h2>Examples</h2>\<newline>'' @ concat (map example_html (m_examples m))
      else [])"

text \<open>The body of the loop over the parameters of a function.\<close>

definition param_html :: "param \<Rightarrow> string" where
  "param_html p =
     ''                <li><code>'' @ p_name p @ ''</code> ('' @ p_type p @ '')'' @
     (if p_description p \<noteq> [] then '': '' @ p_description p else []) @
     ''</li>\<newline>''"

text \<open>The body of the loop over the functions, and the section.\<close>

definition function_html :: "string \<Rightarrow> func_info \<Rightarrow> string" where
  "function_html url func =
     ''    <div class='function'>\<newline>'' @
     ''        <h3><code>'' @ f_name func @ ''('' @ join '', '' (map p_name (f_params func)) @
     '')</code></h3>\<newline>'' @
     ''        <a href='' @ [SQ] @ url @ ''#L'' @ digits_of (f_line func) @ [SQ] @
     '' target='_blank' style='font-size: 0.85em; opacity: 0.7;'>View source</a>\<newline>'' @
     (if f_description func \<noteq> [] then ''        <p>'' @ f_description func @ ''</p>\<newline>''
      else []) @
     (if f_params func \<noteq> [] then
        ''        <div class='params'>\<newline>'' @
        ''            <strong>Parameters:</strong>\<newline>'' @
        ''            <ul>\<newline>'' @
        concat (map param_html (f_params func)) @
        ''            </ul>\<newline>'' @
        ''        </div>\<newline>''
      else []) @
     (if f_returns func \<noteq> [] then
        ''        <div class='returns'><strong>Returns:</strong> '' @ f_returns func @
        ''</div>\<newline>''
      else []) @
     ''    </div>\<newline>''"

definition functions_html :: "module \<Rightarrow> string" where
  "functions_html m =
     (if m_functions m \<noteq> [] then
        ''    <h2>Functions</h2>\<newline>'' @
        concat (map (function_html (github_url m)) (m_functions m))
      else [])"

definition generate_html_module :: "module \<Rightarrow> string" where
  "generate_html_module m =
     module_head_a @ m_name m @ module_head_b @ m_name m @ module_version_badge m @
     ''</h1>\<newline>        <p>'' @ escape_angle (m_description m) @ ''</p>\<newline>'' @
     metadata_html m @ github_link_html m @ examples_html m @ functions_html m @ module_foot"

section \<open>The index page\<close>

text \<open>The fixed text at the start and at the end of the page of \<^verbatim>\<open>generate_html_index\<close>.\<close>

definition index_head :: string where
  "index_head =
     concat
     [''<!DOCTYPE html>\<newline>'',
      ''<html lang=\"en\">\<newline>'',
      ''<head>\<newline>'',
      ''    <meta charset=\"UTF-8\">\<newline>'',
      ''    <meta name=\"viewport\" content=\"width=device-width, initial-scale=1.0\">\<newline>'',
      ''    <title>TAC Documentation</title>\<newline>'',
      ''    <style>\<newline>'',
      ''        :root {\<newline>'',
      ''            --bg: #ffffff;\<newline>'',
      ''            --text: #1a1a1a;\<newline>'',
      ''            --link: #0066cc;\<newline>'',
      ''            --border: #e0e0e0;\<newline>'',
      ''            --code-bg: #f5f5f5;\<newline>'',
      ''        }\<newline>'',
      ''        @media (prefers-color-scheme: dark) {\<newline>'',
      ''            :root {\<newline>'',
      ''                --bg: #1a1a1a;\<newline>'',
      ''                --text: #e0e0e0;\<newline>'',
      ''                --link: #4d9fff;\<newline>'',
      ''                --border: #333333;\<newline>'',
      ''                --code-bg: #2a2a2a;\<newline>'',
      ''            }\<newline>'',
      ''        }\<newline>'',
      ''        * {\<newline>'',
      ''            margin: 0;\<newline>'',
      ''            padding: 0;\<newline>'',
      ''            box-sizing: border-box;\<newline>'',
      ''        }\<newline>'',
      ''        body {\<newline>'',
      ''            font-family: -apple-system, BlinkMacSystemFont, 'Segoe UI', Roboto, sans-serif;\<newline>'',
      ''            line-height: 1.6;\<newline>'',
      ''            color: var(--text);\<newline>'',
      ''            background: var(--bg);\<newline>'',
      ''            padding: 2rem;\<newline>'',
      ''            max-width: 1200px;\<newline>'',
      ''            margin: 0 auto;\<newline>'',
      ''        }\<newline>'',
      ''        h1 {\<newline>'',
      ''            margin-bottom: 1rem;\<newline>'',
      ''            padding-bottom: 0.5rem;\<newline>'',
      ''            border-bottom: 2px solid var(--border);\<newline>'',
      ''        }\<newline>'',
      ''        h2 {\<newline>'',
      ''            margin-top: 2rem;\<newline>'',
      ''            margin-bottom: 1rem;\<newline>'',
      ''        }\<newline>'',
      ''        .module {\<newline>'',
      ''            padding: 1rem;\<newline>'',
      ''            margin: 0.5rem 0;\<newline>'',
      ''            border: 1px solid var(--border);\<newline>'',
      ''            border-radius: 4px;\<newline>'',
      ''        }\<newline>'',
      ''        .module h3 {\<newline>'',
      ''            margin: 0 0 0.5rem 0;\<newline>'',
      ''        }\<newline>'',
      ''        .module p {\<newline>'',
      ''            opacity: 0.8;\<newline>'',
      ''        }\<newline>'',
      ''        a {\<newline>'',
      ''            color: var(--link);\<newline>'',
      ''            text-decoration: none;\<newline>'',
      ''        }\<newline>'',
      ''        a:hover {\<newline>'',
      ''            text-decoration: underline;\<newline>'',
      ''        }\<newline>'',
      ''        .version-badge {\<newline>'',
      ''            display: inline-block;\<newline>'',
      ''            background: #2a3540;\<newline>'',
      ''            color: #8b949e;\<newline>'',
      ''            padding: 0.15rem 0.4rem;\<newline>'',
      ''            border-radius: 3px;\<newline>'',
      ''            font-size: 0.7em;\<newline>'',
      ''            font-weight: 500;\<newline>'',
      ''            margin-left: 0.5rem;\<newline>'',
      ''            vertical-align: middle;\<newline>'',
      ''        }\<newline>'',
      ''        .install-box {\<newline>'',
      ''            background: linear-gradient(135deg, #667eea 0%, #764ba2 100%);\<newline>'',
      ''            border-radius: 8px;\<newline>'',
      ''            padding: 2rem;\<newline>'',
      ''            margin: 2rem 0;\<newline>'',
      ''            color: white;\<newline>'',
      ''        }\<newline>'',
      ''        .install-box h2 {\<newline>'',
      ''            margin-top: 0;\<newline>'',
      ''            color: white;\<newline>'',
      ''            border: none;\<newline>'',
      ''        }\<newline>'',
      ''        .install-box p {\<newline>'',
      ''            opacity: 0.95;\<newline>'',
      ''            margin-bottom: 1rem;\<newline>'',
      ''        }\<newline>'',
      ''        .install-command {\<newline>'',
      ''            position: relative;\<newline>'',
      ''            background: rgba(0, 0, 0, 0.3);\<newline>'',
      ''            border: 1px solid rgba(255, 255, 255, 0.2);\<newline>'',
      ''            border-radius: 6px;\<newline>'',
      ''            padding: 1rem 1.5rem;\<newline>'',
      ''            font-family: 'Monaco', 'Courier New', monospace;\<newline>'',
      ''            font-size: 1rem;\<newline>'',
      ''            margin: 1rem 0;\<newline>'',
      ''            display: flex;\<newline>'',
      ''            align-items: center;\<newline>'',
      ''            justify-content: space-between;\<newline>'',
      ''            gap: 1rem;\<newline>'',
      ''            flex-wrap: wrap;\<newline>'',
      ''        }\<newline>'',
      ''        .install-command code {\<newline>'',
      ''            background: none;\<newline>'',
      ''            color: #fff;\<newline>'',
      ''            padding: 0;\<newline>'',
      ''            font-size: 1em;\<newline>'',
      ''            word-break: break-all;\<newline>'',
      ''            flex: 1;\<newline>'',
      ''            min-width: 0;\<newline>'',
      ''        }\<newline>'',
      ''        .copy-button {\<newline>'',
      ''            background: rgba(255, 255, 255, 0.2);\<newline>'',
      ''            border: 1px solid rgba(255, 255, 255, 0.3);\<newline>'',
      ''            color: white;\<newline>'',
      ''            padding: 0.5rem 1rem;\<newline>'',
      ''            border-radius: 4px;\<newline>'',
      ''            cursor: pointer;\<newline>'',
      ''            font-size: 0.9rem;\<newline>'',
      ''            font-weight: 500;\<newline>'',
      ''            transition: all 0.2s;\<newline>'',
      ''            white-space: nowrap;\<newline>'',
      ''            flex-shrink: 0;\<newline>'',
      ''        }\<newline>'',
      ''        .copy-button:hover {\<newline>'',
      ''            background: rgba(255, 255, 255, 0.3);\<newline>'',
      ''            transform: translateY(-1px);\<newline>'',
      ''        }\<newline>'',
      ''        .copy-button:active {\<newline>'',
      ''            transform: translateY(0);\<newline>'',
      ''        }\<newline>'',
      ''        .copy-button.copied {\<newline>'',
      ''            background: rgba(76, 175, 80, 0.8);\<newline>'',
      ''            border-color: rgba(76, 175, 80, 1);\<newline>'',
      ''        }\<newline>'',
      ''        @media (max-width: 768px) {\<newline>'',
      ''            .install-box {\<newline>'',
      ''                padding: 1.5rem;\<newline>'',
      ''                margin: 1.5rem 0;\<newline>'',
      ''            }\<newline>'',
      ''            .install-command {\<newline>'',
      ''                padding: 0.75rem 1rem;\<newline>'',
      ''                font-size: 0.85rem;\<newline>'',
      ''                flex-direction: column;\<newline>'',
      ''                align-items: stretch;\<newline>'',
      ''            }\<newline>'',
      ''            .install-command code {\<newline>'',
      ''                font-size: 0.85em;\<newline>'',
      ''                margin-bottom: 0.5rem;\<newline>'',
      ''            }\<newline>'',
      ''            .copy-button {\<newline>'',
      ''                width: 100%;\<newline>'',
      ''                text-align: center;\<newline>'',
      ''            }\<newline>'',
      ''        }\<newline>'',
      ''        @media (max-width: 480px) {\<newline>'',
      ''            .install-box {\<newline>'',
      ''                padding: 1rem;\<newline>'',
      ''                margin: 1rem 0;\<newline>'',
      ''            }\<newline>'',
      ''            .install-command {\<newline>'',
      ''                padding: 0.5rem 0.75rem;\<newline>'',
      ''                font-size: 0.75rem;\<newline>'',
      ''            }\<newline>'',
      ''            .install-command code {\<newline>'',
      ''                font-size: 0.75em;\<newline>'',
      ''            }\<newline>'',
      ''        }\<newline>'',
      ''    </style>\<newline>'',
      ''</head>\<newline>'',
      ''<body>\<newline>'',
      ''    <h1>TAC Documentation</h1>\<newline>'',
      ''    <p>Terminal Access Control (TAC) is a comprehensive access control system for ComputerCraft that provides card-based authentication, extensible modules, and integration with external services.</p>\<newline>'',
      ''    \<newline>'',
      ''    <div class=\"install-box\">\<newline>'',
      ''        <h2>Quick Install</h2>\<newline>'',
      ''        <p>Get started with TAC in seconds! Run this command in ComputerCraft:</p>\<newline>'',
      ''        <div class=\"install-command\">\<newline>'',
      ''            <code>wget run https://raw.githubusercontent.com/Twijn/tac/main/installer.lua</code>\<newline>'',
      ''            <button class=\"copy-button\" onclick=\"copyInstallCommand(this)\">Copy</button>\<newline>'',
      ''        </div>\<newline>'',
      ''        <p style=\"font-size: 0.9rem; opacity: 0.8; margin-top: 0.5rem;\">This will download and run the TAC installer, which will guide you through the setup process.</p>\<newline>'',
      ''    </div>\<newline>'',
      ''    \<newline>'']"

definition index_foot :: string where
  "index_foot =
     concat
     [''</body>\<newline>'',
      ''<script>\<newline>'',
      ''function copyInstallCommand(button) {\<newline>'',
      ''    const command = 'wget run https://raw.githubusercontent.com/Twijn/tac/main/installer.lua';\<newline>'',
      ''    navigator.clipboard.writeText(command).then(() => {\<newline>'',
      ''        const originalText = button.textContent;\<newline>'',
      ''        button.textContent = 'Copied!';\<newline>'',
      ''        button.classList.add('copied');\<newline>'',
      ''        setTimeout(() => {\<newline>'',
      ''            button.textContent = originalText;\<newline>'',
      ''            button.classList.remove('copied');\<newline>'',
      ''        }, 2000);\<newline>'',
      ''    }).catch(err => {\<newline>'',
      ''        console.error('Failed to copy:', err);\<newline>'',
      ''        alert('Failed to copy to clipboard');\<newline>'',
      ''    });\<newline>'',
      ''}\<newline>'',
      ''</script>\<newline>'',
      ''</html>\<newline>'']"

subsection \<open>Dictionaries\<close>

text \<open>
  A Python dictionary with keys in the order of their insertion, as the list of its
  items. \<^verbatim>\<open>dict_set\<close> is \<^verbatim>\<open>d[k] = v\<close>: an old key keeps its place.
\<close>

fun dict_set :: "(string \<times> 'v) list \<Rightarrow> string \<Rightarrow> 'v \<Rightarrow> (string \<times> 'v) list" where
  "dict_set [] k v = [(k, v)]"
| "dict_set ((k', v') # d) k v =
     (if k' = k then (k, v) # d else (k', v') # dict_set d k v)"

text \<open>\<^verbatim>\<open>k in d\<close> and \<^verbatim>\<open>d.get(k, [])\<close>.\<close>

definition dict_has :: "(string \<times> 'v) list \<Rightarrow> string \<Rightarrow> bool" where
  "dict_has d k \<longleftrightarrow> k \<in> set (map fst d)"

definition dict_get :: "(string \<times> 'v list) list \<Rightarrow> string \<Rightarrow> 'v list" where
  "dict_get d k = (case map_of d k of None \<Rightarrow> [] | Some v \<Rightarrow> v)"

subsection \<open>Categories\<close>

definition is_core :: "module \<Rightarrow> bool" where
  "is_core m \<longleftrightarrow> startswith (m_path m) ''tac/core/'' \<and> \<not> py_in ''/'' (drop 9 (m_path m))"

definition is_library :: "module \<Rightarrow> bool" where
  "is_library m \<longleftrightarrow> startswith (m_path m) ''tac/lib/''"

definition is_command :: "module \<Rightarrow> bool" where
  "is_command m \<longleftrightarrow> startswith (m_path m) ''tac/commands/''"

text \<open>
  The body of the loop that fills \<^verbatim>\<open>extension_parents\<close> and \<^verbatim>\<open>extension_children\<close>, the two
  components of the state.
\<close>

type_synonym ext_state = "(string \<times> module) list \<times> (string \<times> module list) list"

definition ext_step :: "ext_state \<Rightarrow> module \<Rightarrow> ext_state" where
  "ext_step st m =
     (case st of (extension_parents, extension_children) \<Rightarrow>
        if startswith (m_path m) ''tac/extensions/'' then
          (let path_parts = split_on CHR ''/'' (drop 15 (m_path m)) in
             if length path_parts = 1 then
               (let extension_name = ''tac.extensions.'' @ replace (hd path_parts) ''.lua'' []
                in (dict_set extension_parents extension_name m,
                    if \<not> dict_has extension_children extension_name
                    then dict_set extension_children extension_name []
                    else extension_children))
             else if length path_parts = 2 then
               (let parent_name = ''tac.extensions.'' @ hd path_parts;
                    children0 = (if \<not> dict_has extension_children parent_name
                                 then dict_set extension_children parent_name []
                                 else extension_children)
                in (extension_parents,
                    dict_set children0 parent_name (dict_get children0 parent_name @ [m])))
             else st)
        else st)"

definition organize :: "module list \<Rightarrow> ext_state" where
  "organize modules = foldl ext_step ([], []) modules"

definition sorted_parents :: "module list \<Rightarrow> (string \<times> module) list" where
  "sorted_parents modules = sort_key fst (fst (organize modules))"

definition categorized :: "module list \<Rightarrow> module list" where
  "categorized modules =
     filter is_core modules @ filter is_command modules @ map snd (fst (organize modules))
     @ concat (map snd (snd (organize modules)))"

definition other_modules :: "module list \<Rightarrow> module list" where
  "other_modules modules = filter (\<lambda>m. m \<notin> set (categorized modules)) modules"

text \<open>
  The items of \<^verbatim>\<open>categories\<close> that the loop over them looks at, in the order of the
  dictionary; the entry \<^verbatim>\<open>Extension Modules\<close>, which the loop passes over, is left out.
\<close>

definition categories :: "module list \<Rightarrow> (string \<times> module list) list" where
  "categories modules =
     [(''Core Modules'', filter is_core modules),
      (''Library Modules'', filter is_library modules),
      (''Command Modules'', filter is_command modules)]
     @ (if other_modules modules \<noteq> [] then [(''Other Modules'', other_modules modules)] else [])"

subsection \<open>The page\<close>

definition index_version_badge :: "module \<Rightarrow> string" where
  "index_version_badge m =
     (if truthy (m_version m)
      then ''<span class=\"version-badge\">v'' @ opt_text (m_version m) @ ''</span>''
      else [])"

text \<open>\<^verbatim>\<open>text[:n] + ('...' if len(text) > n else '')\<close>.\<close>

definition truncate :: "nat \<Rightarrow> string \<Rightarrow> string" where
  "truncate n text = take n text @ (if n < length text then ''...'' else [])"

text \<open>The first lines of an entry, the same for a module of a category and for a parent.\<close>

definition entry_open_html :: "module \<Rightarrow> string" where
  "entry_open_html m =
     ''    <div class=\"module\">\<newline>'' @
     ''        <h3><a href=\"'' @ replace (m_name m) ''.'' ''_'' @ ''.html\">'' @ m_name m @
     ''</a>'' @ index_version_badge m @ ''</h3>\<newline>'' @
     ''        <p>'' @ truncate 200 (m_description m) @ ''</p>\<newline>''"

definition module_entry_html :: "module \<Rightarrow> string" where
  "module_entry_html m = entry_open_html m @ ''    </div>\<newline>''"

definition category_html :: "string \<times> module list \<Rightarrow> string" where
  "category_html c =
     (if snd c = [] then []
      else ''    <h2>'' @ fst c @ ''</h2>\<newline>'' @ concat (map module_entry_html (snd c)))"

definition child_html :: "module \<Rightarrow> string" where
  "child_html child =
     ''            <div style=\"margin: 0.5rem 0;\">\<newline>'' @
     ''                <strong><a href=\"'' @ replace (m_name child) ''.'' ''_'' @ ''.html\">'' @
     last (split_on CHR ''.'' (m_name child)) @ ''</a></strong>\<newline>'' @
     ''                <span style=\"opacity: 0.7; font-size: 0.9em;\"> - '' @
     truncate 150 (m_description child) @ ''</span>\<newline>'' @
     ''            </div>\<newline>''"

definition children_html :: "module list \<Rightarrow> string" where
  "children_html children =
     (if children \<noteq> [] then
        ''        <div style=\"margin-left: 2rem; margin-top: 0.75rem; border-left: 2px solid var(--border); padding-left: 1rem;\">\<newline>'' @
        concat (map child_html (sort_key m_name children)) @
        ''        </div>\<newline>''
      else [])"

definition parent_html :: "(string \<times> module list) list \<Rightarrow> string \<times> module \<Rightarrow> string" where
  "parent_html extension_children p =
     entry_open_html (snd p) @ children_html (dict_get extension_children (fst p)) @
     ''    </div>\<newline>''"

definition extensions_html :: "module list \<Rightarrow> string" where
  "extensions_html modules =
     (if sorted_parents modules \<noteq> [] then
        ''    <h2>Extension Modules</h2>\<newline>'' @
        concat (map (parent_html (snd (organize modules))) (sorted_parents modules))
      else [])"

definition generate_html_index :: "module list \<Rightarrow> string" where
  "generate_html_index modules =
     index_head @ concat (map category_html (categories modules)) @ extensions_html modules
     @ index_foot"

subsection \<open>The branches of the extension loop\<close>

text \<open>
  The conditions of the two branches of the loop body, the keys they use, and what one
  pass of the body does to the entry of one key in \<^verbatim>\<open>extension_children\<close>.
\<close>

definition is_top_ext :: "module \<Rightarrow> bool" where
  "is_top_ext m \<longleftrightarrow> startswith (m_path m) ''tac/extensions/'' \<and>
     length (split_on CHR ''/'' (drop 15 (m_path m))) = 1"

definition is_child_ext :: "module \<Rightarrow> bool" where
  "is_child_ext m \<longleftrightarrow> startswith (m_path m) ''tac/extensions/'' \<and>
     length (split_on CHR ''/'' (drop 15 (m_path m))) = 2"

definition top_key :: "module \<Rightarrow> string" where
  "top_key m = ''tac.extensions.'' @ replace (hd (split_on CHR ''/'' (drop 15 (m_path m)))) ''.lua'' []"

definition child_key :: "module \<Rightarrow> string" where
  "child_key m = ''tac.extensions.'' @ hd (split_on CHR ''/'' (drop 15 (m_path m)))"

definition child_upd :: "module \<Rightarrow> string \<Rightarrow> module list option \<Rightarrow> module list option" where
  "child_upd m k v =
     (if is_top_ext m \<and> k = top_key m then (case v of None \<Rightarrow> Some [] | Some l \<Rightarrow> Some l)
      else if is_child_ext m \<and> k = child_key m
        then Some ((case v of None \<Rightarrow> [] | Some l \<Rightarrow> l) @ [m])
      else v)"

section \<open>The file filter of \<^verbatim>\<open>generate\<close>\<close>

text \<open>
  The loop of \<^verbatim>\<open>generate\<close> that filters the discovered files, on their paths relative
  to the input directory. \<^verbatim>\<open>in_skip_dir\<close> is the \<^verbatim>\<open>any(skip in rel_path for skip in ...)\<close>.
\<close>

definition skip_dirs :: "string list" where
  "skip_dirs = [''data/'', ''test/'', ''.git'']"

definition in_skip_dir :: "string \<Rightarrow> bool" where
  "in_skip_dir rel_path \<longleftrightarrow> list_ex (\<lambda>skip. py_in skip rel_path) skip_dirs"

definition top_level_lib :: "string \<Rightarrow> bool" where
  "top_level_lib rel_path \<longleftrightarrow>
     startswith rel_path ''lib/'' \<and> \<not> startswith rel_path ''tac/lib/''"

fun filter_files :: "string list \<Rightarrow> string list" where
  "filter_files [] = []"
| "filter_files (f # fs) =
     (if in_skip_dir f then filter_files fs
      else if top_level_lib f then filter_files fs
      else f # filter_files fs)"

text \<open>
  The exclusion as the specification words it: some directory of the relative path (a
  component before the last one) is literally named \<^verbatim>\<open>data\<close>, \<^verbatim>\<open>test\<close> or \<^verbatim>\<open>.git\<close>, or
  the path lies under \<^verbatim>\<open>lib/\<close> and not under \<^verbatim>\<open>tac/lib/\<close>.
\<close>

definition path_dirs :: "string \<Rightarrow> string list" where
  "path_dirs rel_path = butlast (split_on CHR ''/'' rel_path)"

definition spec_excluded :: "string \<Rightarrow> bool" where
  "spec_excluded rel_path \<longleftrightarrow>
     list_ex (\<lambda>d. d = ''data'' \<or> d = ''test'' \<or> d = ''.git'') (path_dirs rel_path) \<or>
     (startswith rel_path ''lib/'' \<and> \<not> startswith rel_path ''tac/lib/'')"

section \<open>Properties of the string functions\<close>

lemma py_in_iff: "py_in sub s \<longleftrightarrow> (\<exists>pre post. s = pre @ sub @ post)"
proof (induction s)
  case Nil
  then show ?case by auto
next
  case (Cons c cs)
  show ?case
  proof
    assume "py_in sub (c # cs)"
    then consider "prefix sub (c # cs)" | "py_in sub cs" by auto
    then show "\<exists>pre post. c # cs = pre @ sub @ post"
    proof cases
      case 1
      then obtain post where "c # cs = sub @ post" by (auto simp: prefix_def)
      then have "c # cs = [] @ sub @ post" by simp
      then show ?thesis by blast
    next
      case 2
      with Cons.IH obtain pre post where "cs = pre @ sub @ post" by blast
      then have "c # cs = (c # pre) @ sub @ post" by simp
      then show ?thesis by blast
    qed
  next
    assume "\<exists>pre post. c # cs = pre @ sub @ post"
    then obtain pre post where eq: "c # cs = pre @ sub @ post" by blast
    show "py_in sub (c # cs)"
    proof (cases pre)
      case Nil
      with eq have "prefix sub (c # cs)" by (simp add: prefix_def)
      then show ?thesis by simp
    next
      case (Cons p ps)
      with eq have "cs = ps @ sub @ post" by simp
      with Cons.IH have "py_in sub cs" by blast
      then show ?thesis by simp
    qed
  qed
qed

lemma py_in_single: "py_in [c] s \<longleftrightarrow> c \<in> set s"
  by (induction s) auto

lemma split_on_not_Nil: "split_on sep s \<noteq> []"
  by (induction s) (auto split: list.splits)

lemma join_split_on: "join [sep] (split_on sep s) = s"
proof (induction s)
  case Nil
  then show ?case by simp
next
  case (Cons c cs)
  obtain w ws where w: "split_on sep cs = w # ws"
    using split_on_not_Nil [of sep cs] by (cases "split_on sep cs") auto
  show ?case
  proof (cases "c = sep")
    case True
    with Cons w show ?thesis by simp
  next
    case False
    with Cons w show ?thesis by (cases ws) auto
  qed
qed

section \<open>The privacy heuristics\<close>

text \<open>
  The two tests that skip a match, in words of the identifier. The group \<^verbatim>\<open>(local\s+)?\<close>
  is \<open>None\<close> or \<^verbatim>\<open>local\<close> with whitespace after it.
\<close>

lemma skip_internal_iff:
  "((is_local = None \<or> (\<exists>ws. ws \<noteq> [] \<and> is_local = Some (''local'' @ ws))) \<longrightarrow>
     (skip_internal is_local func_name \<longleftrightarrow>
        (is_local \<noteq> None \<and> CHR ''.'' \<notin> set func_name \<and> CHR '':'' \<notin> set func_name) \<or>
        (\<exists>rest. func_name = ''_'' @ rest) \<or>
        (\<exists>pre post. func_name = pre @ ''._'' @ post)))
   \<and> \<not> skip_internal None ''foo.bar_baz''"
proof -
  have under: "skip_underscore func_name \<longleftrightarrow>
      (\<exists>rest. func_name = ''_'' @ rest) \<or> (\<exists>pre post. func_name = pre @ ''._'' @ post)"
  proof -
    have a: "startswith func_name ''_'' \<longleftrightarrow> (\<exists>rest. func_name = ''_'' @ rest)"
      by (auto simp: startswith_def prefix_def)
    have b: "startswith func_name ''_'' \<Longrightarrow> py_in ''_'' func_name"
      by (cases func_name) (auto simp: startswith_def)
    have c: "py_in ''._'' func_name \<Longrightarrow> py_in ''_'' func_name"
    proof -
      assume "py_in ''._'' func_name"
      then obtain pre post where "func_name = pre @ ''._'' @ post"
        unfolding py_in_iff by blast
      then have "CHR ''_'' \<in> set func_name" by auto
      then show ?thesis by (simp add: py_in_single)
    qed
    show ?thesis
      unfolding skip_underscore_def using a b c by (auto simp: py_in_iff)
  qed
  have ex: "\<not> skip_internal None ''foo.bar_baz''"
    by (simp add: skip_internal_def skip_local_def skip_underscore_def truthy_def
        startswith_def)
  show ?thesis
    using under ex
    by (auto simp: skip_internal_def skip_local_def truthy_def py_in_single)
qed

section \<open>The signature pattern\<close>

lemma line_split:
  "x \<in> set s \<Longrightarrow>
     s = (takeWhile (\<lambda>c. c \<noteq> x) s @ [x]) @ drop (Suc (length (takeWhile (\<lambda>c. c \<noteq> x) s))) s"
  by (induction s) auto

lemma comment_line_split:
  assumes "comment_line s = Some (l, r)"
  shows "s = l @ r \<and> NL \<in> set l"
proof -
  from assms have l: "l = takeWhile (\<lambda>c. c \<noteq> NL) s @ [NL]"
    and r: "r = drop (length l) s" and nl: "NL \<in> set s"
    by (auto simp: comment_line_def Let_def split: if_splits)
  from line_split [OF nl] l r show ?thesis by simp
qed

lemma comment_lines_split:
  "comment_lines s = (b, r) \<Longrightarrow> s = b @ r \<and> (b \<noteq> [] \<longrightarrow> NL \<in> set b)"
proof (induction s arbitrary: b r rule: comment_lines.induct)
  case 1
  then show ?case by simp
next
  case (2 c cs)
  show ?case
  proof (cases "comment_line (c # cs)")
    case None
    with "2.prems" show ?thesis by simp
  next
    case (Some lr)
    obtain l r0 where lr: "lr = (l, r0)" by (cases lr)
    obtain b' r' where rec: "comment_lines r0 = (b', r')" by (cases "comment_lines r0")
    from Some lr have cl: "comment_line (c # cs) = Some (l, r0)" by simp
    from comment_line_split [OF cl] have s: "c # cs = l @ r0" and nl: "NL \<in> set l" by auto
    from "2.IH" [OF Some lr [symmetric] rec] have r0: "r0 = b' @ r'" by simp
    from "2.prems" cl rec have b: "b = l @ b'" and r: "r = r'" by auto
    from s r0 b r nl show ?thesis by simp
  qed
qed

lemma blank_lines_length: "blank_lines s = (b, r) \<Longrightarrow> length r \<le> length s"
proof (induction s arbitrary: b r rule: blank_lines.induct)
  case 1
  then show ?case by simp
next
  case (2 c cs)
  show ?case
  proof (cases "blank_line (c # cs)")
    case None
    with "2.prems" show ?thesis by simp
  next
    case (Some lr)
    obtain l r0 where lr: "lr = (l, r0)" by (cases lr)
    obtain b' r' where rec: "blank_lines r0 = (b', r')" by (cases "blank_lines r0")
    from Some lr have "length r0 \<le> length (c # cs)"
      by (auto simp: blank_line_def Let_def split: if_splits)
    moreover from "2.IH" [OF Some lr [symmetric] rec] have "length r' \<le> length r0" .
    moreover from "2.prems" Some lr rec have "r = r'" by auto
    ultimately show ?thesis by simp
  qed
qed

lemma signature_at_length:
  assumes "signature_at s = Some (n, p, rest)"
  shows "length rest < length s"
proof -
  define r5 where "r5 = dropWhile is_space (drop 8 s)"
  define r7 where "r7 = dropWhile is_space (dropWhile is_name_char r5)"
  define r8 where "r8 = dropWhile (\<lambda>c. c \<noteq> CHR '')'' \<and> c \<noteq> NL) (drop 1 r7)"
  from assms have rest: "rest = drop 1 r8" and p: "prefix '')'' r8"
    unfolding signature_at_def Let_def r5_def r7_def r8_def
    by (simp_all split: if_splits)
  from p have "r8 \<noteq> []" by auto
  with rest have a: "length rest < length r8" by simp
  have "length r8 \<le> length (drop 1 r7)" unfolding r8_def by (rule length_dropWhile_le)
  also have "\<dots> \<le> length r7" by simp
  also have "\<dots> \<le> length (dropWhile is_name_char r5)"
    unfolding r7_def by (rule length_dropWhile_le)
  also have "\<dots> \<le> length r5" by (rule length_dropWhile_le)
  also have "\<dots> \<le> length (drop 8 s)" unfolding r5_def by (rule length_dropWhile_le)
  also have "\<dots> \<le> length s" by simp
  finally show ?thesis using a by simp
qed

lemma func_match_at_shape:
  assumes "func_match_at s = Some m"
  shows "fm_start m = 0 \<and> prefix (fm_doc_block m) s \<and> NL \<in> set (fm_doc_block m)
         \<and> length (fm_doc_block m) \<le> fm_keyword m \<and> fm_keyword m \<le> length s
         \<and> 0 < fm_end m \<and> fm_end m \<le> length s"
proof -
  obtain doc r1 where cl: "comment_lines s = (doc, r1)" by (cases "comment_lines s")
  obtain blanks r2 where bl: "blank_lines r1 = (blanks, r2)" by (cases "blank_lines r1")
  from comment_lines_split [OF cl] have s: "s = doc @ r1" and nl: "doc \<noteq> [] \<longrightarrow> NL \<in> set doc"
    by auto
  from blank_lines_length [OF bl] have r2: "length r2 \<le> length r1" .
  define r3 where "r3 = dropWhile is_blank r2"
  have r3: "length r3 \<le> length r2" unfolding r3_def by (rule length_dropWhile_le)
  define r4 where
    "r4 = drop (case local_group r3 of None \<Rightarrow> 0 | Some l \<Rightarrow> length l) r3"
  have r4: "length r4 \<le> length r3" unfolding r4_def by simp
  from assms cl bl obtain n p rest where sg: "signature_at r4 = Some (n, p, rest)"
    unfolding func_match_at_def Let_def r3_def r4_def
    by (auto split: option.splits)
  with assms cl bl have ok: "doc \<noteq> []"
    and m: "fm_start m = 0" "fm_keyword m = length s - length r4" "fm_doc_block m = doc"
       "fm_end m = length s - length rest"
    unfolding func_match_at_def Let_def r3_def r4_def
    by (auto split: if_splits)
  from signature_at_length [OF sg] have rest: "length rest < length r4" .
  from r2 r3 r4 have le: "length r4 \<le> length r1" by simp
  from s have len: "length s = length doc + length r1" by simp
  have "prefix (fm_doc_block m) s" using s m by simp
  moreover have "NL \<in> set (fm_doc_block m)" using nl ok m by simp
  moreover have "length (fm_doc_block m) \<le> fm_keyword m" using m le len by simp
  moreover have "fm_keyword m \<le> length s" using m by simp
  moreover have "0 < fm_end m" using m rest le len by simp
  moreover have "fm_end m \<le> length s" using m by simp
  ultimately show ?thesis using m by simp
qed

lemma finditer_from_shape:
  "m \<in> set (finditer_from pos skip s) \<Longrightarrow>
     \<exists>pre suf m'. s = pre @ suf \<and> func_match_at suf = Some m' \<and>
        m = m'\<lparr>fm_start := pos + length pre, fm_keyword := pos + length pre + fm_keyword m',
               fm_end := pos + length pre + fm_end m'\<rparr>"
proof (induction pos skip s rule: finditer_from.induct)
  case (1 pos skip)
  then show ?case by simp
next
  case (2 pos skip c cs)
  have step: "\<exists>pre suf m'. c # cs = pre @ suf \<and> func_match_at suf = Some m' \<and>
        m = m'\<lparr>fm_start := pos + length pre, fm_keyword := pos + length pre + fm_keyword m',
               fm_end := pos + length pre + fm_end m'\<rparr>"
    if "m \<in> set (finditer_from (Suc pos) k cs)"
      and ih: "m \<in> set (finditer_from (Suc pos) k cs) \<Longrightarrow>
        \<exists>pre suf m'. cs = pre @ suf \<and> func_match_at suf = Some m' \<and>
        m = m'\<lparr>fm_start := Suc pos + length pre, fm_keyword := Suc pos + length pre + fm_keyword m',
               fm_end := Suc pos + length pre + fm_end m'\<rparr>" for k
  proof -
    from ih [OF that(1)] obtain pre suf m' where "cs = pre @ suf" "func_match_at suf = Some m'"
      "m = m'\<lparr>fm_start := Suc pos + length pre, fm_keyword := Suc pos + length pre + fm_keyword m',
               fm_end := Suc pos + length pre + fm_end m'\<rparr>" by blast
    then have "c # cs = (c # pre) @ suf \<and> func_match_at suf = Some m' \<and>
        m = m'\<lparr>fm_start := pos + length (c # pre), fm_keyword := pos + length (c # pre) + fm_keyword m',
               fm_end := pos + length (c # pre) + fm_end m'\<rparr>" by simp
    then show ?thesis by blast
  qed
  show ?case
  proof (cases "0 < skip")
    case True
    with "2.prems" have "m \<in> set (finditer_from (Suc pos) (skip - 1) cs)" by simp
    then show ?thesis using "2.IH"(1) [OF True] step by blast
  next
    case False
    show ?thesis
    proof (cases "func_match_at (c # cs)")
      case None
      with False "2.prems" have "m \<in> set (finditer_from (Suc pos) 0 cs)" by simp
      then show ?thesis using "2.IH"(2) [OF False None] step by blast
    next
      case (Some m0)
      with False "2.prems" consider
        "m = m0\<lparr>fm_start := pos, fm_keyword := pos + fm_keyword m0, fm_end := pos + fm_end m0\<rparr>"
        | "m \<in> set (finditer_from (Suc pos) (fm_end m0 - 1) cs)" by auto
      then show ?thesis
      proof cases
        case 1
        then have "c # cs = [] @ (c # cs) \<and> func_match_at (c # cs) = Some m0 \<and>
          m = m0\<lparr>fm_start := pos + length ([]::string),
                 fm_keyword := pos + length ([]::string) + fm_keyword m0,
                 fm_end := pos + length ([]::string) + fm_end m0\<rparr>" using Some by simp
        then show ?thesis by blast
      next
        case 2
        then show ?thesis using "2.IH"(3) [OF False Some] step by blast
      qed
    qed
  qed
qed

lemma local_group_shape:
  "local_group s = None \<or> (\<exists>ws. ws \<noteq> [] \<and> local_group s = Some (''local'' @ ws))"
  by (simp add: local_group_def Let_def)

lemma func_match_at_local:
  assumes "func_match_at s = Some m"
  shows "fm_is_local m = None \<or> (\<exists>ws. ws \<noteq> [] \<and> fm_is_local m = Some (''local'' @ ws))"
proof -
  obtain doc r1 where cl: "comment_lines s = (doc, r1)" by (cases "comment_lines s")
  obtain blanks r2 where bl: "blank_lines r1 = (blanks, r2)" by (cases "blank_lines r1")
  from assms cl bl have "fm_is_local m = local_group (dropWhile is_blank r2)"
    unfolding func_match_at_def Let_def
    by (auto split: option.splits if_splits)
  then show ?thesis using local_group_shape [of "dropWhile is_blank r2"] by simp
qed

lemma count_list_pos: "x \<in> set xs \<Longrightarrow> 0 < count_list xs x"
  by (induction xs) auto

lemma finditer_lines:
  assumes "m \<in> set (finditer content)"
  shows "line_of content (fm_start m) < line_of content (fm_keyword m)"
proof -
  from assms finditer_from_shape [of m 0 0 content]
  obtain pre suf m' where c: "content = pre @ suf" and m': "func_match_at suf = Some m'"
    and st: "fm_start m = length pre" and kw: "fm_keyword m = length pre + fm_keyword m'"
    unfolding finditer_def by auto
  from func_match_at_shape [OF m'] obtain r where suf: "suf = fm_doc_block m' @ r"
    and nl: "NL \<in> set (fm_doc_block m')" and le: "length (fm_doc_block m') \<le> fm_keyword m'"
    by (auto simp: prefix_def)
  have "take (fm_keyword m) content
      = pre @ fm_doc_block m' @ take (fm_keyword m' - length (fm_doc_block m')) r"
    using c suf kw le by simp
  moreover have "take (fm_start m) content = pre" using c st by simp
  moreover have "0 < count_list (fm_doc_block m') NL" using nl by (rule count_list_pos)
  ultimately show ?thesis by (simp add: line_of_def count_nl_def)
qed

lemma extract_functions_filter:
  "extract_functions content ms =
     map (make_func content)
       (filter (\<lambda>m. \<not> skip_internal (fm_is_local m) (fm_func_name m) \<and>
                    documented (make_func content m)) ms)"
  by (induction ms) (auto simp: skip_internal_def)

lemma foldl_doc_line_line: "f_line (fst (foldl doc_line st xs)) = f_line (fst st)"
proof (induction xs arbitrary: st)
  case Nil
  then show ?case by simp
next
  case (Cons x xs)
  have "f_line (fst (doc_line st x)) = f_line (fst st)"
    by (simp add: doc_line_def split: option.splits)
  with Cons show ?case by simp
qed

lemma parse_doc_line: "f_line (parse_doc fi doc) = f_line fi"
proof -
  obtain fi' ds where r: "foldl doc_line (fi, []) (split_on NL doc) = (fi', ds)"
    by (cases "foldl doc_line (fi, []) (split_on NL doc)")
  from foldl_doc_line_line [of "(fi, [])" "split_on NL doc"] r have "f_line fi' = f_line fi"
    by simp
  with r show ?thesis by (simp add: parse_doc_def)
qed

lemma make_func_line: "f_line (make_func content m) = line_of content (fm_start m)"
  by (simp add: make_func_def parse_doc_line)

section \<open>The comment block of a function\<close>

lemma starts_param_not_return: "startswith l ''@param'' \<Longrightarrow> \<not> startswith l ''@return''"
  by (auto simp: startswith_def prefix_def)


lemma foldl_doc_line_returns:
  "f_returns (fst (foldl doc_line st xs)) =
     (case filter (\<lambda>l. startswith l ''@return'') (List.map_filter clean_doc_line xs) of
        [] \<Rightarrow> f_returns (fst st)
      | r # rs \<Rightarrow> strip (replace (last (r # rs)) ''@return'' []))"
proof (induction xs arbitrary: st)
  case Nil
  then show ?case by (simp add: List.map_filter_simps)
next
  case (Cons x xs)
  let ?rest = "filter (\<lambda>l. startswith l ''@return'') (List.map_filter clean_doc_line xs)"
  show ?case
  proof (cases "clean_doc_line x")
    case None
    then have "doc_line st x = st" by (simp add: doc_line_def)
    with Cons [of st] None show ?thesis by (simp add: List.map_filter_simps)
  next
    case (Some l)
    show ?thesis
    proof (cases "startswith l ''@return''")
      case True
      then have np: "\<not> startswith l ''@param''" using starts_param_not_return by blast
      with Some True
      have "f_returns (fst (doc_line st x)) = strip (replace l ''@return'' [])"
        by (simp add: doc_line_def)
      with Cons [of "doc_line st x"] Some True show ?thesis
        by (cases ?rest) (simp_all add: List.map_filter_simps)
    next
      case False
      with Some have "f_returns (fst (doc_line st x)) = f_returns (fst st)"
        by (simp add: doc_line_def split: option.splits)
      with Cons [of "doc_line st x"] Some False show ?thesis
        by (simp add: List.map_filter_simps split: list.splits)
    qed
  qed
qed

lemma parse_doc_fields:
  "f_params (parse_doc fi doc) = f_params (fst (foldl doc_line (fi, []) (split_on NL doc)))"
  "f_returns (parse_doc fi doc) = f_returns (fst (foldl doc_line (fi, []) (split_on NL doc)))"
  by (simp_all add: parse_doc_def split: prod.splits)



section \<open>The retained functions\<close>

lemma parse_file_functions: "m_functions (parse_file rel_path content) = parse_functions content"
  by (simp add: parse_file_def Let_def)

text \<open>
  C4. Every function record of a parsed file has a description that is not empty, or a
  parameter, or a \<^verbatim>\<open>returns\<close> string that is not empty; and the records are those of the
  signature matches, in their order, that the privacy heuristics do not leave out and
  that meet this condition. A function \<^verbatim>\<open>obj.method\<close> whose comment block is the one
  line \<^verbatim>\<open>--- @return string\<close> is retained, with \<^verbatim>\<open>returns\<close> equal to \<^verbatim>\<open>string\<close>.
\<close>

theorem retained_functions_documented:
  "(\<forall>fi \<in> set (m_functions (parse_file rel_path content)).
      f_description fi \<noteq> [] \<or> f_params fi \<noteq> [] \<or> f_returns fi \<noteq> [])
   \<and> m_functions (parse_file rel_path content) =
       map (make_func content)
         (filter (\<lambda>m. \<not> skip_internal (fm_is_local m) (fm_func_name m) \<and>
                      (f_description (make_func content m) \<noteq> [] \<or>
                       f_params (make_func content m) \<noteq> [] \<or>
                       f_returns (make_func content m) \<noteq> []))
            (finditer content))
   \<and> (fm_func_name m = ''obj.method'' \<and> fm_doc_block m = ''--- @return string\<newline>'' \<longrightarrow>
        extract_functions content [m] = [make_func content m] \<and>
        f_returns (make_func content m) = ''string'')"
proof -
  have eq: "parse_functions content =
       map (make_func content)
         (filter (\<lambda>m. \<not> skip_internal (fm_is_local m) (fm_func_name m) \<and>
                      (f_description (make_func content m) \<noteq> [] \<or>
                       f_params (make_func content m) \<noteq> [] \<or>
                       f_returns (make_func content m) \<noteq> []))
            (finditer content))"
    using extract_functions_filter [of content "finditer content"]
    by (simp add: parse_functions_def documented_def)
  have inv: "\<forall>fi \<in> set (parse_functions content).
      f_description fi \<noteq> [] \<or> f_params fi \<noteq> [] \<or> f_returns fi \<noteq> []"
    unfolding eq by auto
  have pf: "m_functions (parse_file rel_path content) = parse_functions content"
    by (rule parse_file_functions)
  have ex: "extract_functions content [m] = [make_func content m] \<and>
        f_returns (make_func content m) = ''string''"
    if nm: "fm_func_name m = ''obj.method''" and doc: "fm_doc_block m = ''--- @return string\<newline>''"
  proof -
    have lines: "List.map_filter clean_doc_line (split_on NL ''--- @return string\<newline>'')
        = [''@return string'']"
      by code_simp
    have r: "strip (replace ''@return string'' ''@return'' []) = ''string''"
      by code_simp
    have ret: "f_returns (make_func content m) = ''string''"
      unfolding make_func_def doc
      using foldl_doc_line_returns [of "(\<lparr>f_name = fm_func_name m, f_params = [],
          f_returns = [], f_description = [], f_line = line_of content (fm_start m)\<rparr>, [])"
          "split_on NL ''--- @return string\<newline>''"]
      unfolding lines parse_doc_fields by (simp add: startswith_def r)
    have sl: "\<not> skip_local (fm_is_local m) (fm_func_name m)"
      unfolding nm by (simp add: skip_local_def)
    have su: "\<not> skip_underscore (fm_func_name m)"
      unfolding nm by (simp add: skip_underscore_def startswith_def)
    from ret have "documented (make_func content m)" by (simp add: documented_def)
    with sl su ret show ?thesis by simp
  qed
  from inv eq ex show ?thesis unfolding pf by blast
qed

theorem retained_functions_documented_witness:
  "m_functions (parse_file ''tac/obj.lua'' ''--- @return string\<newline>function obj.method()\<newline>'')
     = [\<lparr>f_name = ''obj.method'', f_params = [], f_returns = ''string'', f_description = [],
         f_line = 1\<rparr>]
   \<and> f_returns (make_func ''--- @return string\<newline>function obj.method()\<newline>''
         \<lparr>fm_start = 0, fm_keyword = 19, fm_end = 40, fm_doc_block = ''--- @return string\<newline>'',
          fm_is_local = None, fm_func_name = ''obj.method'', fm_params = []\<rparr>) \<noteq> []"
proof -
  let ?c = "''--- @return string\<newline>function obj.method()\<newline>''"
  let ?m = "\<lparr>fm_start = 0, fm_keyword = 19, fm_end = 40, fm_doc_block = ''--- @return string\<newline>'',
          fm_is_local = None, fm_func_name = ''obj.method'', fm_params = []\<rparr>"
  have fi: "finditer ?c = [?m]"
    by code_simp
  have nm: "fm_func_name ?m = ''obj.method'' \<and> fm_doc_block ?m = ''--- @return string\<newline>''"
    by simp
  from retained_functions_documented [of "''tac/obj.lua''" ?c ?m] nm
  have kept: "extract_functions ?c [?m] = [make_func ?c ?m]"
    and ret: "f_returns (make_func ?c ?m) = ''string''" by blast+
  have mk: "make_func ?c ?m = \<lparr>f_name = ''obj.method'', f_params = [], f_returns = ''string'',
      f_description = [], f_line = 1\<rparr>"
    by code_simp
  from kept fi mk have "parse_functions ?c = [\<lparr>f_name = ''obj.method'', f_params = [],
      f_returns = ''string'', f_description = [], f_line = 1\<rparr>]"
    by (simp add: parse_functions_def)
  with ret show ?thesis by (simp add: parse_file_functions)
qed

section \<open>The line of a function\<close>

text \<open>
  C7, as the specification words it, fails. In the file of the two lines \<^verbatim>\<open>--- Doc\<close> and
  \<^verbatim>\<open>function foo()\<close> the definition is on line 2 (the \<^verbatim>\<open>function\<close> keyword is at offset
  8), and the record of \<^verbatim>\<open>foo\<close> has line 1: the match starts with the comment block.
\<close>

theorem function_line_counterexample:
  "finditer ''--- Doc\<newline>function foo()\<newline>''
     = [\<lparr>fm_start = 0, fm_keyword = 8, fm_end = 22, fm_doc_block = ''--- Doc\<newline>'',
         fm_is_local = None, fm_func_name = ''foo'', fm_params = []\<rparr>]
   \<and> line_of ''--- Doc\<newline>function foo()\<newline>'' 8 = 2
   \<and> m_functions (parse_file ''tac/foo.lua'' ''--- Doc\<newline>function foo()\<newline>'')
     = [\<lparr>f_name = ''foo'', f_params = [], f_returns = [], f_description = ''Doc'',
         f_line = 1\<rparr>]"
  by code_simp

text \<open>
  C7, amended. The line of a retained function is 1 plus the number of newlines before
  the offset of its match. The match starts with the comment block in front of the
  definition, so this is the line on which that comment block starts, and it is smaller
  than the line of the \<^verbatim>\<open>function\<close> keyword.
\<close>

theorem function_line_is_match_line:
  "m_functions (parse_file rel_path content) =
       map (make_func content)
         (filter (\<lambda>m. \<not> skip_internal (fm_is_local m) (fm_func_name m) \<and>
                      documented (make_func content m))
            (finditer content))
   \<and> (\<forall>m \<in> set (finditer content).
        f_line (make_func content m) = count_nl (take (fm_start m) content) + 1 \<and>
        f_line (make_func content m) < count_nl (take (fm_keyword m) content) + 1)"
proof -
  have eq: "parse_functions content =
       map (make_func content)
         (filter (\<lambda>m. \<not> skip_internal (fm_is_local m) (fm_func_name m) \<and>
                      documented (make_func content m))
            (finditer content))"
    using extract_functions_filter [of content "finditer content"]
    by (simp add: parse_functions_def)
  have lines: "f_line (make_func content m) = count_nl (take (fm_start m) content) + 1 \<and>
        f_line (make_func content m) < count_nl (take (fm_keyword m) content) + 1"
    if "m \<in> set (finditer content)" for m
    using finditer_lines [OF that] make_func_line [of content m]
    by (simp add: line_of_def)
  from eq lines show ?thesis unfolding parse_file_functions by blast
qed

theorem function_line_is_match_line_witness:
  "\<lparr>fm_start = 11, fm_keyword = 21, fm_end = 38, fm_doc_block = ''-- Adds.\<newline>'',
     fm_is_local = None, fm_func_name = ''M.add'', fm_params = ''a''\<rparr>
     \<in> set (finditer ''local M={}\<newline>-- Adds.\<newline>\<newline>function M.add(a)\<newline>'')
   \<and> m_functions (parse_file ''tac/m.lua'' ''local M={}\<newline>-- Adds.\<newline>\<newline>function M.add(a)\<newline>'')
     = [\<lparr>f_name = ''M.add'', f_params = [], f_returns = [], f_description = ''Adds.'',
         f_line = 2\<rparr>]
   \<and> count_nl (take 21 ''local M={}\<newline>-- Adds.\<newline>\<newline>function M.add(a)\<newline>'') + 1 = 4"
proof -
  let ?c = "''local M={}\<newline>-- Adds.\<newline>\<newline>function M.add(a)\<newline>''"
  let ?m = "\<lparr>fm_start = 11, fm_keyword = 21, fm_end = 38, fm_doc_block = ''-- Adds.\<newline>'',
     fm_is_local = None, fm_func_name = ''M.add'', fm_params = ''a''\<rparr>"
  have fi: "finditer ?c = [?m]"
    by code_simp
  then have mem: "?m \<in> set (finditer ?c)" by simp
  have kw: "count_nl (take 21 ?c) + 1 = 4" by code_simp
  have mk: "make_func ?c ?m = \<lparr>f_name = ''M.add'', f_params = [], f_returns = [],
      f_description = ''Adds.'', f_line = 2\<rparr>"
    by code_simp
  have keep: "\<not> skip_internal (fm_is_local ?m) (fm_func_name ?m) \<and> documented (make_func ?c ?m)"
    unfolding mk by code_simp
  from function_line_is_match_line [of "''tac/m.lua''" ?c] mem
  have "f_line (make_func ?c ?m) < count_nl (take (fm_keyword ?m) ?c) + 1"
    and "m_functions (parse_file ''tac/m.lua'' ?c) = map (make_func ?c)
         (filter (\<lambda>m. \<not> skip_internal (fm_is_local m) (fm_func_name m) \<and>
                      documented (make_func ?c m)) (finditer ?c))"
    by blast+
  with fi keep mk have "m_functions (parse_file ''tac/m.lua'' ?c) = [\<lparr>f_name = ''M.add'',
      f_params = [], f_returns = [], f_description = ''Adds.'', f_line = 2\<rparr>]"
    by simp
  with mem kw show ?thesis by simp
qed

section \<open>The privacy heuristics\<close>

lemma blank_line_split:
  assumes "blank_line s = Some (l, r)"
  shows "s = l @ r"
proof -
  from assms have l: "l = takeWhile is_blank s @ [NL]"
    and r: "r = drop (length l) s" and p: "prefix [NL] (dropWhile is_blank s)"
    by (auto simp: blank_line_def Let_def split: if_splits)
  from p obtain t where t: "dropWhile is_blank s = NL # t" by (auto simp: prefix_def)
  have "s = takeWhile is_blank s @ dropWhile is_blank s" by simp
  with t have s: "s = l @ t" unfolding l by (simp only: append.assoc append_Cons append_Nil)
  then have "drop (length l) s = t" by (metis append_eq_conv_conj)
  with s r show ?thesis by simp
qed

lemma blank_lines_split: "blank_lines s = (b, r) \<Longrightarrow> s = b @ r"
proof (induction s arbitrary: b r rule: blank_lines.induct)
  case 1
  then show ?case by simp
next
  case (2 c cs)
  show ?case
  proof (cases "blank_line (c # cs)")
    case None
    with "2.prems" show ?thesis by simp
  next
    case (Some lr)
    obtain l r0 where lr: "lr = (l, r0)" by (cases lr)
    obtain b' r' where rec: "blank_lines r0 = (b', r')" by (cases "blank_lines r0")
    from Some lr have "blank_line (c # cs) = Some (l, r0)" by simp
    then have s': "c # cs = l @ r0" by (rule blank_line_split)
    from "2.IH" [OF Some lr [symmetric] rec] have "r0 = b' @ r'" .
    moreover from "2.prems" Some lr rec have "b = l @ b'" "r = r'" by auto
    ultimately show ?thesis using s' by simp
  qed
qed

lemma local_group_text:
  "local_group s = Some l \<Longrightarrow>
     (\<exists>ws. ws \<noteq> [] \<and> (\<forall>c \<in> set ws. is_space c) \<and> l = ''local'' @ ws) \<and> prefix l s"
proof -
  assume a: "local_group s = Some l"
  let ?ws = "takeWhile is_space (drop 5 s)"
  from a have p: "prefix ''local'' s" and ne: "?ws \<noteq> []" and l: "l = ''local'' @ ?ws"
    by (auto simp: local_group_def Let_def split: if_splits)
  from p obtain r where s: "s = ''local'' @ r" by (auto simp: prefix_def)
  then have "drop 5 s = r" by simp
  then have "s = ''local'' @ ?ws @ dropWhile is_space (drop 5 s)" using s by simp
  then have "prefix l s" unfolding l by (metis append.assoc prefixI)
  moreover have "\<forall>c \<in> set ?ws. is_space c" by (auto dest: set_takeWhileD)
  ultimately show ?thesis using ne l by blast
qed

lemma func_match_at_local_text:
  assumes "func_match_at s = Some m" "fm_is_local m = Some l"
  shows "(\<exists>ws. ws \<noteq> [] \<and> (\<forall>c \<in> set ws. is_space c) \<and> l = ''local'' @ ws)
         \<and> length l \<le> fm_keyword m
         \<and> take (length l) (drop (fm_keyword m - length l) s) = l"
proof -
  obtain doc r1 where cl: "comment_lines s = (doc, r1)" by (cases "comment_lines s")
  obtain blanks r2 where bl: "blank_lines r1 = (blanks, r2)" by (cases "blank_lines r1")
  define r3 where "r3 = dropWhile is_blank r2"
  from assms cl bl have loc: "local_group r3 = Some l"
    and kw: "fm_keyword m = length s - length (drop (length l) r3)"
    unfolding func_match_at_def Let_def r3_def
    by (auto split: option.splits if_splits prod.splits)
  from local_group_text [OF loc] obtain r4 where r3: "r3 = l @ r4"
    and sh: "\<exists>ws. ws \<noteq> [] \<and> (\<forall>c \<in> set ws. is_space c) \<and> l = ''local'' @ ws"
    by (auto simp: prefix_def)
  from comment_lines_split [OF cl] blank_lines_split [OF bl]
  have "s = doc @ blanks @ takeWhile is_blank r2 @ r3" unfolding r3_def by simp
  then obtain pre where s: "s = pre @ l @ r4" using r3 by (metis append.assoc)
  from kw r3 have k: "fm_keyword m = length s - length r4" by simp
  with s have k': "fm_keyword m = length pre + length l" by simp
  then have "drop (fm_keyword m - length l) s = l @ r4" using s by simp
  with sh k' show ?thesis by simp
qed

lemma finditer_local_text:
  assumes "m \<in> set (finditer content)" "fm_is_local m = Some l"
  shows "(\<exists>ws. ws \<noteq> [] \<and> (\<forall>c \<in> set ws. is_space c) \<and> l = ''local'' @ ws)
         \<and> length l \<le> fm_keyword m
         \<and> take (length l) (drop (fm_keyword m - length l) content) = l"
proof -
  from assms(1) finditer_from_shape [of m 0 0 content]
  obtain pre suf m' where c: "content = pre @ suf" and m': "func_match_at suf = Some m'"
    and kw: "fm_keyword m = length pre + fm_keyword m'" and lo: "fm_is_local m = fm_is_local m'"
    unfolding finditer_def by auto
  from func_match_at_local_text [OF m'] lo assms(2)
  have sh: "\<exists>ws. ws \<noteq> [] \<and> (\<forall>c \<in> set ws. is_space c) \<and> l = ''local'' @ ws"
    and le: "length l \<le> fm_keyword m'"
    and tk: "take (length l) (drop (fm_keyword m' - length l) suf) = l" by auto
  from kw le have "fm_keyword m - length l = length pre + (fm_keyword m' - length l)" by simp
  then have "drop (fm_keyword m - length l) content = drop (fm_keyword m' - length l) suf"
    using c by simp
  with sh le kw tk show ?thesis by simp
qed



lemma finditer_local_shape:
  assumes "m \<in> set (finditer content)"
  shows "fm_is_local m = None \<or> (\<exists>ws. ws \<noteq> [] \<and> fm_is_local m = Some (''local'' @ ws))"
proof (cases "fm_is_local m")
  case None
  then show ?thesis by simp
next
  case (Some l)
  from finditer_local_text [OF assms Some] Some show ?thesis by auto
qed

lemma privacy_filter:
  "filter (\<lambda>m. \<not> ((fm_is_local m \<noteq> None \<and> CHR ''.'' \<notin> set (fm_func_name m) \<and>
                      CHR '':'' \<notin> set (fm_func_name m)) \<or>
                     (\<exists>rest. fm_func_name m = ''_'' @ rest) \<or>
                     (\<exists>pre post. fm_func_name m = pre @ ''._'' @ post)) \<and> D m)
     (finditer content)
   = filter (\<lambda>m. \<not> skip_internal (fm_is_local m) (fm_func_name m) \<and> D m) (finditer content)"
proof (rule filter_cong [OF refl])
  fix m assume "m \<in> set (finditer content)"
  from finditer_local_shape [OF this]
    conjunct1 [OF skip_internal_iff [of "fm_is_local m" "fm_func_name m"]]
  have "skip_internal (fm_is_local m) (fm_func_name m) \<longleftrightarrow>
      (fm_is_local m \<noteq> None \<and> CHR ''.'' \<notin> set (fm_func_name m) \<and>
         CHR '':'' \<notin> set (fm_func_name m)) \<or>
      (\<exists>rest. fm_func_name m = ''_'' @ rest) \<or>
      (\<exists>pre post. fm_func_name m = pre @ ''._'' @ post)"
    by blast
  then show "(\<not> ((fm_is_local m \<noteq> None \<and> CHR ''.'' \<notin> set (fm_func_name m) \<and>
                      CHR '':'' \<notin> set (fm_func_name m)) \<or>
                     (\<exists>rest. fm_func_name m = ''_'' @ rest) \<or>
                     (\<exists>pre post. fm_func_name m = pre @ ''._'' @ post)) \<and> D m)
      = (\<not> skip_internal (fm_is_local m) (fm_func_name m) \<and> D m)"
    by (simp only:)
qed

text \<open>
  C3. The functions of a parsed file are the records of the signature matches, in their
  order, that are documented and that the privacy heuristics do not exclude; and a match
  is excluded exactly when it was declared with the \<^verbatim>\<open>local\<close> keyword and its identifier
  has neither a dot nor a colon, or its identifier starts with an underscore or has an
  underscore right after a dot. A match was declared with the keyword when the group
  \<^verbatim>\<open>(local\s+)?\<close> took part in it: its text is then \<^verbatim>\<open>local\<close> with whitespace after it, and
  it stands in the file right in front of the \<^verbatim>\<open>function\<close> keyword. An identifier with
  an underscore elsewhere only, as \<^verbatim>\<open>foo.bar_baz\<close>, is not excluded.
\<close>

theorem privacy_heuristics_exact:
  "m_functions (parse_file rel_path content) =
     map (make_func content)
       (filter (\<lambda>m. \<not> ((fm_is_local m \<noteq> None \<and> CHR ''.'' \<notin> set (fm_func_name m) \<and>
                          CHR '':'' \<notin> set (fm_func_name m)) \<or>
                         (\<exists>rest. fm_func_name m = ''_'' @ rest) \<or>
                         (\<exists>pre post. fm_func_name m = pre @ ''._'' @ post))
                    \<and> documented (make_func content m))
          (finditer content))
   \<and> (\<forall>m \<in> set (finditer content). \<forall>l. fm_is_local m = Some l \<longrightarrow>
         (\<exists>ws. ws \<noteq> [] \<and> (\<forall>c \<in> set ws. is_space c) \<and> l = ''local'' @ ws) \<and>
         length l \<le> fm_keyword m \<and>
         take (length l) (drop (fm_keyword m - length l) content) = l)
   \<and> (fm_func_name m0 = ''foo.bar_baz'' \<and> documented (make_func content m0) \<longrightarrow>
         extract_functions content [m0] = [make_func content m0])"
proof -
  have a: "m_functions (parse_file rel_path content) =
     map (make_func content)
       (filter (\<lambda>m. \<not> ((fm_is_local m \<noteq> None \<and> CHR ''.'' \<notin> set (fm_func_name m) \<and>
                          CHR '':'' \<notin> set (fm_func_name m)) \<or>
                         (\<exists>rest. fm_func_name m = ''_'' @ rest) \<or>
                         (\<exists>pre post. fm_func_name m = pre @ ''._'' @ post))
                    \<and> documented (make_func content m))
          (finditer content))"
    unfolding privacy_filter parse_file_functions parse_functions_def
    by (rule extract_functions_filter)
  have b: "\<forall>m \<in> set (finditer content). \<forall>l. fm_is_local m = Some l \<longrightarrow>
         (\<exists>ws. ws \<noteq> [] \<and> (\<forall>c \<in> set ws. is_space c) \<and> l = ''local'' @ ws) \<and>
         length l \<le> fm_keyword m \<and>
         take (length l) (drop (fm_keyword m - length l) content) = l"
    using finditer_local_text by blast
  have c: "extract_functions content [m0] = [make_func content m0]"
    if "fm_func_name m0 = ''foo.bar_baz''" "documented (make_func content m0)"
    using that by (simp add: skip_local_def skip_underscore_def startswith_def)
  from a b c show ?thesis by blast
qed

theorem privacy_heuristics_exact_witness:
  "m_functions (parse_file ''tac/m.lua''
     ''--- Doc\<newline>local function helper(x)\<newline>end\<newline>--- Doc\<newline>local  function M.run(x)\<newline>end\<newline>--- Doc\<newline>function ns._internal()\<newline>end\<newline>--- Doc\<newline>function _init()\<newline>end\<newline>--- Doc\<newline>function foo.bar_baz()\<newline>end\<newline>'')
   = [\<lparr>f_name = ''M.run'', f_params = [], f_returns = [], f_description = ''Doc'', f_line = 4\<rparr>,
      \<lparr>f_name = ''foo.bar_baz'', f_params = [], f_returns = [], f_description = ''Doc'',
       f_line = 13\<rparr>]
   \<and> take 7 (drop 45
     ''--- Doc\<newline>local function helper(x)\<newline>end\<newline>--- Doc\<newline>local  function M.run(x)\<newline>end\<newline>--- Doc\<newline>function ns._internal()\<newline>end\<newline>--- Doc\<newline>function _init()\<newline>end\<newline>--- Doc\<newline>function foo.bar_baz()\<newline>end\<newline>'') = ''local  ''"
proof -
  let ?c = "''--- Doc\<newline>local function helper(x)\<newline>end\<newline>--- Doc\<newline>local  function M.run(x)\<newline>end\<newline>--- Doc\<newline>function ns._internal()\<newline>end\<newline>--- Doc\<newline>function _init()\<newline>end\<newline>--- Doc\<newline>function foo.bar_baz()\<newline>end\<newline>''"
  let ?m2 = "\<lparr>fm_start = 37, fm_keyword = 52, fm_end = 69, fm_doc_block = ''--- Doc\<newline>'',
     fm_is_local = Some ''local  '', fm_func_name = ''M.run'', fm_params = ''x''\<rparr>"
  have run: "map (make_func ?c)
      (filter (\<lambda>m. \<not> skip_internal (fm_is_local m) (fm_func_name m) \<and>
                   documented (make_func ?c m)) (finditer ?c))
    = [\<lparr>f_name = ''M.run'', f_params = [], f_returns = [], f_description = ''Doc'', f_line = 4\<rparr>,
       \<lparr>f_name = ''foo.bar_baz'', f_params = [], f_returns = [], f_description = ''Doc'',
        f_line = 13\<rparr>]"
    by code_simp
  have mem: "?m2 \<in> set (finditer ?c)"
    by code_simp
  have loc: "fm_is_local ?m2 = Some ''local  ''" by simp
  from privacy_heuristics_exact [of "''tac/m.lua''" ?c]
  have eq: "m_functions (parse_file ''tac/m.lua'' ?c) =
     map (make_func ?c)
       (filter (\<lambda>m. \<not> ((fm_is_local m \<noteq> None \<and> CHR ''.'' \<notin> set (fm_func_name m) \<and>
                          CHR '':'' \<notin> set (fm_func_name m)) \<or>
                         (\<exists>rest. fm_func_name m = ''_'' @ rest) \<or>
                         (\<exists>pre post. fm_func_name m = pre @ ''._'' @ post))
                    \<and> documented (make_func ?c m))
          (finditer ?c))"
    and lt: "\<forall>m \<in> set (finditer ?c). \<forall>l. fm_is_local m = Some l \<longrightarrow>
         (\<exists>ws. ws \<noteq> [] \<and> (\<forall>c \<in> set ws. is_space c) \<and> l = ''local'' @ ws) \<and>
         length l \<le> fm_keyword m \<and>
         take (length l) (drop (fm_keyword m - length l) ?c) = l"
    by blast+
  from eq have fs: "m_functions (parse_file ''tac/m.lua'' ?c)
    = [\<lparr>f_name = ''M.run'', f_params = [], f_returns = [], f_description = ''Doc'', f_line = 4\<rparr>,
       \<lparr>f_name = ''foo.bar_baz'', f_params = [], f_returns = [], f_description = ''Doc'',
        f_line = 13\<rparr>]"
    unfolding privacy_filter run .
  from lt mem loc
  have "take (length ''local  '') (drop (fm_keyword ?m2 - length ''local  '') ?c) = ''local  ''"
    by blast
  then have "take 7 (drop 45 ?c) = ''local  ''" by simp
  with fs show ?thesis by simp
qed

section \<open>The module description\<close>

lemma last_dropWhile: "dropWhile P xs \<noteq> [] \<Longrightarrow> last (dropWhile P xs) = last xs"
  by (induction xs) (auto split: if_splits)

lemma rstrip_last: "rstrip s \<noteq> [] \<Longrightarrow> \<not> is_space (last (rstrip s))"
proof -
  assume "rstrip s \<noteq> []"
  then have ne: "dropWhile is_space (rev s) \<noteq> []" by (simp add: rstrip_def)
  then have "\<not> is_space (hd (dropWhile is_space (rev s)))" by (rule hd_dropWhile)
  moreover have "last (rstrip s) = hd (dropWhile is_space (rev s))"
    using ne by (simp add: rstrip_def last_rev)
  ultimately show ?thesis by simp
qed

lemma strip_ends:
  assumes "strip s \<noteq> []"
  shows "\<not> is_space (hd (strip s)) \<and> \<not> is_space (last (strip s))"
proof -
  from assms have ne: "dropWhile is_space (rstrip s) \<noteq> []" by (simp add: strip_def lstrip_def)
  then have "rstrip s \<noteq> []" by auto
  then have "\<not> is_space (last (rstrip s))" by (rule rstrip_last)
  with last_dropWhile [OF ne] have "\<not> is_space (last (strip s))"
    by (simp add: strip_def lstrip_def)
  moreover from hd_dropWhile [OF ne] have "\<not> is_space (hd (strip s))"
    by (simp add: strip_def lstrip_def)
  ultimately show ?thesis by simp
qed

lemma strip_id:
  assumes "s \<noteq> []" "\<not> is_space (hd s)" "\<not> is_space (last s)"
  shows "strip s = s"
proof -
  from assms have "dropWhile is_space (rev s) = rev s"
    by (cases "rev s") (auto simp: last_rev [symmetric] hd_rev)
  then have "rstrip s = s" by (simp add: rstrip_def)
  moreover from assms have "dropWhile is_space s = s" by (cases s) auto
  ultimately show ?thesis by (simp add: strip_def lstrip_def)
qed

lemma strip_Nil [simp]: "strip [] = []"
  by (simp add: strip_def lstrip_def rstrip_def)

lemma join_ends:
  assumes "xs \<noteq> []" "\<forall>x \<in> set xs. x \<noteq> []"
  shows "join sep xs \<noteq> [] \<and> hd (join sep xs) = hd (hd xs) \<and> last (join sep xs) = last (last xs)"
  using assms
proof (induction sep xs rule: join.induct)
  case (1 sep)
  then show ?case by simp
next
  case (2 sep x)
  then show ?case by simp
next
  case (3 sep x y ys)
  then have "join sep (y # ys) \<noteq> []" and "last (join sep (y # ys)) = last (last (y # ys))"
    by auto
  with 3 show ?case by auto
qed

lemma strip_join_stripped:
  assumes "\<forall>x \<in> set xs. x \<noteq> [] \<and> \<not> is_space (hd x) \<and> \<not> is_space (last x)"
  shows "strip (join sep xs) = join sep xs"
proof (cases xs)
  case Nil
  then show ?thesis by simp
next
  case (Cons y ys)
  then have ne: "xs \<noteq> []" by simp
  from assms have all: "\<forall>x \<in> set xs. x \<noteq> []" by simp
  from join_ends [OF ne all, of sep] assms ne
  have "join sep xs \<noteq> []" "\<not> is_space (hd (join sep xs))" "\<not> is_space (last (join sep xs))"
    by (auto simp: Cons)
  then show ?thesis by (rule strip_id)
qed

lemma desc_loop_True:
  "desc_loop True ls =
     filter (\<lambda>l. l \<noteq> []) (takeWhile (\<lambda>l. \<not> startswith l ''@'') (map strip ls))"
  by (induction ls) (auto simp: Let_def)

lemma desc_loop_False:
  "desc_loop False ls =
     filter (\<lambda>l. l \<noteq> [])
       (takeWhile (\<lambda>l. \<not> startswith l ''@'')
          (drop 1 (dropWhile (\<lambda>l. l = [] \<or> startswith l ''@'') (map strip ls))))"
  by (induction ls) (auto simp: Let_def desc_loop_True)

lemma desc_loop_elems:
  "x \<in> set (desc_loop b ls) \<Longrightarrow> x \<noteq> [] \<and> (\<exists>r. x = strip r)"
  by (induction b ls rule: desc_loop.induct) (auto simp: Let_def split: if_splits)

lemma desc_loop_stripped:
  assumes "x \<in> set (desc_loop b ls)"
  shows "x \<noteq> [] \<and> \<not> is_space (hd x) \<and> \<not> is_space (last x)"
proof -
  from desc_loop_elems [OF assms] obtain r where "x = strip r" "strip r \<noteq> []" by auto
  with strip_ends [of r] show ?thesis by simp
qed

lemma block_description_eq:
  "block_description block =
     join '' '' (filter (\<lambda>l. l \<noteq> [])
       (takeWhile (\<lambda>l. \<not> startswith l ''@'')
          (drop 1 (dropWhile (\<lambda>l. l = [] \<or> startswith l ''@'') (map strip (split_on NL block))))))"
proof -
  have "strip (join '' '' (desc_loop False (split_on NL block)))
      = join '' '' (desc_loop False (split_on NL block))"
    by (rule strip_join_stripped) (auto dest: desc_loop_stripped)
  then show ?thesis by (simp add: block_description_def desc_loop_False)
qed

lemma dropWhile_all: "\<forall>x \<in> set xs. P x \<Longrightarrow> dropWhile P xs = []"
  by (induction xs) auto


lemma dropWhile_title:
  "\<not> (case dropWhile (\<lambda>l. l = []) ls of [] \<Rightarrow> False | l # r \<Rightarrow> startswith l ''@'') \<Longrightarrow>
     dropWhile (\<lambda>l. l = [] \<or> startswith l ''@'') ls = dropWhile (\<lambda>l. l = []) ls"
  by (induction ls) auto

lemma line_desc_loop_run:
  "acc \<noteq> [] \<Longrightarrow>
     line_desc_loop acc ls =
       acc @ filter (\<lambda>t. t \<noteq> [])
         (map (\<lambda>l. strip (drop 3 l))
            (takeWhile (\<lambda>l. startswith l ''---'' \<and> \<not> startswith (strip (drop 3 l)) ''@'') ls))"
  by (induction ls arbitrary: acc) (auto simp: Let_def)

lemma line_desc_loop_first:
  "line_desc_loop [] ls =
     filter (\<lambda>t. t \<noteq> [])
       (map (\<lambda>l. strip (drop 3 l))
          (takeWhile (\<lambda>l. startswith l ''---'' \<and> \<not> startswith (strip (drop 3 l)) ''@'')
             (dropWhile (\<lambda>l. \<not> startswith l ''---'' \<or> strip (drop 3 l) = []) ls)))"
proof (induction ls)
  case Nil
  then show ?case by simp
next
  case (Cons l ls)
  show ?case
  proof (cases "startswith l ''---'' \<and> strip (drop 3 l) \<noteq> []")
    case True
    show ?thesis
    proof (cases "startswith (strip (drop 3 l)) ''@''")
      case tag: True
      with True show ?thesis by (simp add: Let_def)
    next
      case False
      with True line_desc_loop_run [of "[strip (drop 3 l)]" ls] show ?thesis
        by (simp add: Let_def)
    qed
  next
    case False
    then have "\<not> startswith (strip (drop 3 l)) ''@'' \<or> \<not> startswith l ''---''"
      by (auto simp: startswith_def)
    with False Cons show ?thesis by (auto simp: Let_def)
  qed
qed

lemma line_description_eq:
  "line_description content =
     join '' '' (filter (\<lambda>t. t \<noteq> [])
       (map (\<lambda>l. strip (drop 3 l))
          (takeWhile (\<lambda>l. startswith l ''---'' \<and> \<not> startswith (strip (drop 3 l)) ''@'')
             (dropWhile (\<lambda>l. \<not> startswith l ''---'' \<or> strip (drop 3 l) = [])
                (split_on NL content)))))"
  unfolding line_description_def Let_def line_desc_loop_first by simp

text \<open>
  C1, as the specification words it, fails. In the first file the first line of the block
  comment that is not empty starts with a tag, and the parsed description is not empty:
  the block comment gives no description, and the description is then taken from the
  \<^verbatim>\<open>---\<close> comment lines of the file. In the second file the block comment has a title
  and nothing after it, and the parsed description comes from the comment of a function,
  after a line of code.
\<close>

theorem block_description_counterexample:
  "block_match ''--[[\<newline>@author Twijn\<newline>]]\<newline>--- From the lines.\<newline>''
     = Some ''\<newline>@author Twijn\<newline>''
   \<and> first_nonempty_is_tag ''\<newline>@author Twijn\<newline>''
   \<and> m_description (parse_file ''tac/core/b.lua''
        ''--[[\<newline>@author Twijn\<newline>]]\<newline>--- From the lines.\<newline>'') = ''From the lines.''
   \<and> block_match ''--[[ Title ]]\<newline>local M = {}\<newline>--- Adds two numbers.\<newline>function M.add(a, b)\<newline>''
     = Some '' Title ''
   \<and> block_description '' Title '' = []
   \<and> m_description (parse_file ''tac/core/m.lua''
        ''--[[ Title ]]\<newline>local M = {}\<newline>--- Adds two numbers.\<newline>function M.add(a, b)\<newline>'')
     = ''Adds two numbers.''"
  by code_simp

text \<open>
  C1, amended. Take a file with a block comment, and the lines of its body, each
  stripped. When the first of these lines that is not empty starts with no tag, that line
  is the title, and the description of the block comment is made of the lines after the
  title that are not empty, up to the first line that starts with \<^verbatim>\<open>@\<close>, joined with
  single spaces. When every line of the body is empty or starts with a tag, the
  description of the block comment is empty. The parsed description of the module is the
  description of the block comment when that is not empty. When it is empty, the parsed
  description comes from the lines of the whole file: the lines that do not start with
  \<^verbatim>\<open>---\<close> and the \<^verbatim>\<open>---\<close> lines with no text after the marker are passed over up to the
  first \<^verbatim>\<open>---\<close> line with text; from there on, the texts of the \<^verbatim>\<open>---\<close> lines (the marker
  taken off, stripped, the empty ones left out) are joined with single spaces, up to the
  first line that does not start with \<^verbatim>\<open>---\<close> or whose text starts with \<^verbatim>\<open>@\<close>. Nothing is
  said of the description of a block comment whose title comes after a tag line.
\<close>

theorem block_description_rule:
  "block_match content = Some block \<longrightarrow>
     (\<not> first_nonempty_is_tag block \<longrightarrow>
        block_description block =
          join '' '' (filter (\<lambda>l. l \<noteq> [])
            (takeWhile (\<lambda>l. \<not> startswith l ''@'')
               (drop 1 (dropWhile (\<lambda>l. l = []) (map strip (split_on NL block)))))))
     \<and> ((\<forall>l \<in> set (map strip (split_on NL block)). l = [] \<or> startswith l ''@'') \<longrightarrow>
          block_description block = [])
     \<and> m_description (parse_file rel_path content) =
         (if block_description block \<noteq> [] then block_description block
          else join '' '' (filter (\<lambda>t. t \<noteq> [])
                 (map (\<lambda>l. strip (drop 3 l))
                    (takeWhile (\<lambda>l. startswith l ''---'' \<and> \<not> startswith (strip (drop 3 l)) ''@'')
                       (dropWhile (\<lambda>l. \<not> startswith l ''---'' \<or> strip (drop 3 l) = [])
                          (split_on NL content))))))"
proof
  assume bm: "block_match content = Some block"
  have a: "block_description block =
          join '' '' (filter (\<lambda>l. l \<noteq> [])
            (takeWhile (\<lambda>l. \<not> startswith l ''@'')
               (drop 1 (dropWhile (\<lambda>l. l = []) (map strip (split_on NL block))))))"
    if "\<not> first_nonempty_is_tag block"
  proof -
    from that have "dropWhile (\<lambda>l. l = [] \<or> startswith l ''@'') (map strip (split_on NL block))
        = dropWhile (\<lambda>l. l = []) (map strip (split_on NL block))"
      unfolding first_nonempty_is_tag_def by (rule dropWhile_title)
    then show ?thesis unfolding block_description_eq by (simp only:)
  qed
  have c: "block_description block = []"
    if "\<forall>l \<in> set (map strip (split_on NL block)). l = [] \<or> startswith l ''@''"
  proof -
    from that have "dropWhile (\<lambda>l. l = [] \<or> startswith l ''@'')
        (map strip (split_on NL block)) = []"
      by (rule dropWhile_all)
    then show ?thesis unfolding block_description_eq
      by (simp only: drop_Nil takeWhile.simps filter.simps join.simps)
  qed
  have b: "m_description (parse_file rel_path content) =
         (if block_description block \<noteq> [] then block_description block
          else join '' '' (filter (\<lambda>t. t \<noteq> [])
                 (map (\<lambda>l. strip (drop 3 l))
                    (takeWhile (\<lambda>l. startswith l ''---'' \<and> \<not> startswith (strip (drop 3 l)) ''@'')
                       (dropWhile (\<lambda>l. \<not> startswith l ''---'' \<or> strip (drop 3 l) = [])
                          (split_on NL content))))))"
    unfolding line_description_eq [symmetric] using bm by (simp add: parse_file_def Let_def)
  from a b c show "(\<not> first_nonempty_is_tag block \<longrightarrow>
        block_description block =
          join '' '' (filter (\<lambda>l. l \<noteq> [])
            (takeWhile (\<lambda>l. \<not> startswith l ''@'')
               (drop 1 (dropWhile (\<lambda>l. l = []) (map strip (split_on NL block)))))))
     \<and> ((\<forall>l \<in> set (map strip (split_on NL block)). l = [] \<or> startswith l ''@'') \<longrightarrow>
          block_description block = [])
     \<and> m_description (parse_file rel_path content) =
         (if block_description block \<noteq> [] then block_description block
          else join '' '' (filter (\<lambda>t. t \<noteq> [])
                 (map (\<lambda>l. strip (drop 3 l))
                    (takeWhile (\<lambda>l. startswith l ''---'' \<and> \<not> startswith (strip (drop 3 l)) ''@'')
                       (dropWhile (\<lambda>l. \<not> startswith l ''---'' \<or> strip (drop 3 l) = [])
                          (split_on NL content))))))"
    by blast
qed

theorem block_description_rule_witness:
  "block_match ''--[[Title line\<newline>\<newline>Does the thing.\<newline>@version 1.0\<newline>]]''
     = Some ''Title line\<newline>\<newline>Does the thing.\<newline>@version 1.0\<newline>''
   \<and> m_description (parse_file ''tac/core/a.lua''
        ''--[[Title line\<newline>\<newline>Does the thing.\<newline>@version 1.0\<newline>]]'') = ''Does the thing.''
   \<and> block_match ''--[[\<newline>@author Twijn\<newline>]]\<newline>local M = {}\<newline>---\<newline>--- Adds two\<newline>---   numbers.\<newline>--- @param a number\<newline>''
     = Some ''\<newline>@author Twijn\<newline>''
   \<and> block_description ''\<newline>@author Twijn\<newline>'' = []
   \<and> m_description (parse_file ''tac/core/b.lua''
        ''--[[\<newline>@author Twijn\<newline>]]\<newline>local M = {}\<newline>---\<newline>--- Adds two\<newline>---   numbers.\<newline>--- @param a number\<newline>'')
     = ''Adds two numbers.''"
proof -
  let ?c = "''--[[Title line\<newline>\<newline>Does the thing.\<newline>@version 1.0\<newline>]]''"
  let ?b = "''Title line\<newline>\<newline>Does the thing.\<newline>@version 1.0\<newline>''"
  let ?c2 = "''--[[\<newline>@author Twijn\<newline>]]\<newline>local M = {}\<newline>---\<newline>--- Adds two\<newline>---   numbers.\<newline>--- @param a number\<newline>''"
  let ?b2 = "''\<newline>@author Twijn\<newline>''"
  have bm: "block_match ?c = Some ?b" by code_simp
  have bm2: "block_match ?c2 = Some ?b2" by code_simp
  have nt: "\<not> first_nonempty_is_tag ?b" by code_simp
  have lines: "map strip (split_on NL ?b) = [''Title line'', [], ''Does the thing.'', ''@version 1.0'', []]"
    by code_simp
  have lines2: "map strip (split_on NL ?b2) = [[], ''@author Twijn'', []]"
    by code_simp
  have fb: "join '' '' (filter (\<lambda>t. t \<noteq> [])
                 (map (\<lambda>l. strip (drop 3 l))
                    (takeWhile (\<lambda>l. startswith l ''---'' \<and> \<not> startswith (strip (drop 3 l)) ''@'')
                       (dropWhile (\<lambda>l. \<not> startswith l ''---'' \<or> strip (drop 3 l) = [])
                          (split_on NL ?c2))))) = ''Adds two numbers.''"
    by code_simp
  from block_description_rule [of ?c ?b "''tac/core/a.lua''"] bm nt
  have d: "block_description ?b = ''Does the thing.''"
    and m: "m_description (parse_file ''tac/core/a.lua'' ?c) =
         (if block_description ?b \<noteq> [] then block_description ?b
          else join '' '' (filter (\<lambda>t. t \<noteq> [])
                 (map (\<lambda>l. strip (drop 3 l))
                    (takeWhile (\<lambda>l. startswith l ''---'' \<and> \<not> startswith (strip (drop 3 l)) ''@'')
                       (dropWhile (\<lambda>l. \<not> startswith l ''---'' \<or> strip (drop 3 l) = [])
                          (split_on NL ?c))))))"
    unfolding lines by (simp_all add: startswith_def)
  have all2: "\<forall>l \<in> set (map strip (split_on NL ?b2)). l = [] \<or> startswith l ''@''"
    unfolding lines2 by (simp add: startswith_def)
  from block_description_rule [of ?c2 ?b2 "''tac/core/b.lua''"] bm2 all2
  have d2: "block_description ?b2 = []"
    and m2: "m_description (parse_file ''tac/core/b.lua'' ?c2) =
         (if block_description ?b2 \<noteq> [] then block_description ?b2
          else join '' '' (filter (\<lambda>t. t \<noteq> [])
                 (map (\<lambda>l. strip (drop 3 l))
                    (takeWhile (\<lambda>l. startswith l ''---'' \<and> \<not> startswith (strip (drop 3 l)) ''@'')
                       (dropWhile (\<lambda>l. \<not> startswith l ''---'' \<or> strip (drop 3 l) = [])
                          (split_on NL ?c2))))))"
    by blast+
  from m d have r1: "m_description (parse_file ''tac/core/a.lua'' ?c) = ''Does the thing.''"
    by simp
  from m2 d2 fb have r2: "m_description (parse_file ''tac/core/b.lua'' ?c2) = ''Adds two numbers.''"
    by (simp only: if_False simp_thms)
  from bm bm2 d2 r1 r2 show ?thesis by (simp only: simp_thms)
qed

section \<open>Version, author and license\<close>

lemma find_sub_first:
  "find_sub sub s = Some (pre, after) \<Longrightarrow>
     s = pre @ sub @ after \<and> (\<forall>i < length pre. \<not> prefix sub (drop i s))"
proof (induction s arbitrary: pre after)
  case Nil
  then show ?case by (auto split: if_splits)
next
  case (Cons c cs)
  show ?case
  proof (cases "prefix sub (c # cs)")
    case True
    with Cons.prems have "pre = []" "after = drop (length sub) (c # cs)" by auto
    moreover from True obtain r where "c # cs = sub @ r" by (auto simp: prefix_def)
    ultimately show ?thesis by simp
  next
    case False
    with Cons.prems obtain b where fs: "find_sub sub cs = Some (b, after)" and pre: "pre = c # b"
      by (auto split: option.splits)
    from Cons.IH [OF fs] have cs: "cs = b @ sub @ after"
      and no: "\<forall>i < length b. \<not> prefix sub (drop i cs)" by auto
    have "\<not> prefix sub (drop i (c # cs))" if "i < length pre" for i
    proof (cases i)
      case 0
      with False show ?thesis by simp
    next
      case (Suc j)
      with that pre no show ?thesis by simp
    qed
    with cs pre show ?thesis by simp
  qed
qed

lemma same_line_payload:
  "\<exists>c \<in> set (takeWhile (\<lambda>c. c \<noteq> NL) s). \<not> is_space c \<Longrightarrow>
     dropWhile is_space s \<noteq> [] \<and>
     takeWhile (\<lambda>c. c \<noteq> NL) (dropWhile is_space s)
       = dropWhile is_space (takeWhile (\<lambda>c. c \<noteq> NL) s)"
  by (induction s) (auto split: if_splits)

lemma strip_all_space: "\<forall>c \<in> set s. is_space c \<Longrightarrow> strip s = []"
  by (simp add: strip_def lstrip_def rstrip_def dropWhile_all)

lemma rstrip_nonspace: "\<not> is_space c \<Longrightarrow> rstrip (a @ c # b) = a @ c # rstrip b"
  by (simp add: rstrip_def dropWhile_append)

lemma strip_lstrip: "strip (dropWhile is_space s) = strip s"
proof (cases "dropWhile is_space s")
  case Nil
  then have "\<forall>c \<in> set s. is_space c" by (simp add: dropWhile_eq_Nil_conv)
  then have "strip s = []" by (rule strip_all_space)
  with Nil show ?thesis by (simp only: strip_Nil)
next
  case (Cons c b)
  then have c: "\<not> is_space c" using hd_dropWhile [of is_space s] by auto
  have s: "s = takeWhile is_space s @ c # b" using Cons
    by (metis takeWhile_dropWhile_id)
  have "strip s = lstrip (takeWhile is_space s @ c # rstrip b)"
    using rstrip_nonspace [OF c, of "takeWhile is_space s" b] s by (simp add: strip_def)
  also have "\<dots> = c # rstrip b"
    using c by (auto simp: lstrip_def dropWhile_append dest: set_takeWhileD)
  finally have a: "strip s = c # rstrip b" .
  have "strip (c # b) = lstrip (c # rstrip b)"
    using rstrip_nonspace [OF c, of "[]" b] by (simp add: strip_def)
  also have "\<dots> = c # rstrip b" using c by (simp add: lstrip_def)
  finally show ?thesis using a Cons by simp
qed

lemma ws_then_line_same_line:
  assumes sp: "after = c # r" "is_space c"
    and ne: "strip (takeWhile (\<lambda>c. c \<noteq> NL) after) \<noteq> []"
  shows "\<exists>g. ws_then_line after = Some g \<and> strip g = strip (takeWhile (\<lambda>c. c \<noteq> NL) after)"
proof -
  have "\<exists>x \<in> set (takeWhile (\<lambda>c. c \<noteq> NL) after). \<not> is_space x"
  proof (rule ccontr)
    assume "\<not> ?thesis"
    then have "strip (takeWhile (\<lambda>c. c \<noteq> NL) after) = []" by (simp add: strip_all_space)
    with ne show False by simp
  qed
  from same_line_payload [OF this]
  have r: "dropWhile is_space after \<noteq> []"
    and g: "takeWhile (\<lambda>c. c \<noteq> NL) (dropWhile is_space after)
       = dropWhile is_space (takeWhile (\<lambda>c. c \<noteq> NL) after)" by auto
  from sp have w: "takeWhile is_space after \<noteq> []" by simp
  from w r have "ws_then_line after = Some (takeWhile (\<lambda>c. c \<noteq> NL) (dropWhile is_space after))"
    by (simp add: ws_then_line_def Let_def)
  with g show ?thesis by (simp add: strip_lstrip)
qed

lemma ws_then_line_no_space:
  "(case s of [] \<Rightarrow> False | x # r \<Rightarrow> is_space x) = False \<Longrightarrow> ws_then_line s = None"
  by (cases s) (auto simp: ws_then_line_def)

lemma find_tag_None: "find_tag tag block = None \<Longrightarrow> tag_search tag block = None"
proof (induction block)
  case Nil
  then show ?case by simp
next
  case (Cons c cs)
  let ?after = "drop (length tag) (c # cs)"
  from Cons.prems have no: "\<not> (prefix tag (c # cs) \<and>
      (case ?after of [] \<Rightarrow> False | x # r \<Rightarrow> is_space x))"
    and rest: "find_tag tag cs = None"
    by (auto split: if_splits)
  from Cons.IH [OF rest] have ih: "tag_search tag cs = None" .
  show ?case
  proof (cases "prefix tag (c # cs)")
    case True
    with no have "(case ?after of [] \<Rightarrow> False | x # r \<Rightarrow> is_space x) = False" by simp
    then have "ws_then_line ?after = None" by (rule ws_then_line_no_space)
    with True ih show ?thesis by simp
  next
    case False
    with ih show ?thesis by simp
  qed
qed

lemma find_tag_Some:
  "find_tag tag block = Some after \<Longrightarrow> strip (takeWhile (\<lambda>c. c \<noteq> NL) after) \<noteq> [] \<Longrightarrow>
     tag_value tag block = Some (strip (takeWhile (\<lambda>c. c \<noteq> NL) after))"
proof (induction block)
  case Nil
  then show ?case by simp
next
  case (Cons c cs)
  let ?after = "drop (length tag) (c # cs)"
  show ?case
  proof (cases "prefix tag (c # cs) \<and> (case ?after of [] \<Rightarrow> False | x # r \<Rightarrow> is_space x)")
    case True
    with Cons.prems(1) have af: "after = ?after" by simp
    from True af obtain x r where xr: "after = x # r" "is_space x"
      by (cases ?after) auto
    from ws_then_line_same_line [OF xr Cons.prems(2)] obtain g
      where g: "ws_then_line after = Some g"
        and sg: "strip g = strip (takeWhile (\<lambda>c. c \<noteq> NL) after)" by blast
    from True g af have "tag_search tag (c # cs) = Some g" by simp
    with sg show ?thesis by (simp add: tag_value_def)
  next
    case False
    with Cons.prems(1) have ft: "find_tag tag cs = Some after" by (simp split: if_splits)
    from Cons.IH [OF ft Cons.prems(2)]
    have ih: "tag_value tag cs = Some (strip (takeWhile (\<lambda>c. c \<noteq> NL) after))" .
    have "tag_search tag (c # cs) = tag_search tag cs"
    proof (cases "prefix tag (c # cs)")
      case True
      with False have "(case ?after of [] \<Rightarrow> False | x # r \<Rightarrow> is_space x) = False" by simp
      then have "ws_then_line ?after = None" by (rule ws_then_line_no_space)
      with True show ?thesis by simp
    next
      case np: False
      then show ?thesis by simp
    qed
    with ih show ?thesis by (simp add: tag_value_def)
  qed
qed

lemma find_tag_absent: "\<not> py_in tag block \<Longrightarrow> find_tag tag block = None"
  by (induction block) auto

lemma version_search_leftmost:
  "version_search s = Some lit \<longleftrightarrow>
     (\<exists>pre suf. s = pre @ suf \<and> version_assign_at suf = Some lit \<and>
        (\<forall>i < length pre. version_assign_at (drop i s) = None))"
proof (induction s)
  case Nil
  have "version_assign_at [] = None" by (simp add: version_assign_at_def)
  then show ?case by auto
next
  case (Cons c cs)
  show ?case
  proof (cases "version_assign_at (c # cs)")
    case (Some l)
    have "(\<exists>pre suf. c # cs = pre @ suf \<and> version_assign_at suf = Some lit \<and>
        (\<forall>i < length pre. version_assign_at (drop i (c # cs)) = None)) \<longleftrightarrow> l = lit"
    proof
      assume "\<exists>pre suf. c # cs = pre @ suf \<and> version_assign_at suf = Some lit \<and>
        (\<forall>i < length pre. version_assign_at (drop i (c # cs)) = None)"
      then obtain pre suf where eq: "c # cs = pre @ suf" and v: "version_assign_at suf = Some lit"
        and no: "\<forall>i < length pre. version_assign_at (drop i (c # cs)) = None" by blast
      have "pre = []"
      proof (rule ccontr)
        assume "pre \<noteq> []"
        then have "0 < length pre" by simp
        with no have "version_assign_at (drop 0 (c # cs)) = None" by blast
        with Some show False by simp
      qed
      with eq v Some show "l = lit" by simp
    next
      assume "l = lit"
      with Some have "c # cs = [] @ (c # cs) \<and> version_assign_at (c # cs) = Some lit \<and>
        (\<forall>i < length ([]::string). version_assign_at (drop i (c # cs)) = None)" by simp
      then show "\<exists>pre suf. c # cs = pre @ suf \<and> version_assign_at suf = Some lit \<and>
        (\<forall>i < length pre. version_assign_at (drop i (c # cs)) = None)" by blast
    qed
    with Some show ?thesis by simp
  next
    case None
    have "(\<exists>pre suf. c # cs = pre @ suf \<and> version_assign_at suf = Some lit \<and>
        (\<forall>i < length pre. version_assign_at (drop i (c # cs)) = None)) \<longleftrightarrow>
      (\<exists>pre suf. cs = pre @ suf \<and> version_assign_at suf = Some lit \<and>
        (\<forall>i < length pre. version_assign_at (drop i cs) = None))"
    proof
      assume "\<exists>pre suf. c # cs = pre @ suf \<and> version_assign_at suf = Some lit \<and>
        (\<forall>i < length pre. version_assign_at (drop i (c # cs)) = None)"
      then obtain pre suf where eq: "c # cs = pre @ suf" and v: "version_assign_at suf = Some lit"
        and no: "\<forall>i < length pre. version_assign_at (drop i (c # cs)) = None" by blast
      from eq v None obtain p where pre: "pre = c # p" by (cases pre) auto
      with eq have "cs = p @ suf" by simp
      moreover have "\<forall>i < length p. version_assign_at (drop i cs) = None"
      proof (intro allI impI)
        fix i assume "i < length p"
        with pre have "Suc i < length pre" by simp
        with no have "version_assign_at (drop (Suc i) (c # cs)) = None" by blast
        then show "version_assign_at (drop i cs) = None" by simp
      qed
      ultimately show "\<exists>pre suf. cs = pre @ suf \<and> version_assign_at suf = Some lit \<and>
        (\<forall>i < length pre. version_assign_at (drop i cs) = None)" using v by blast
    next
      assume "\<exists>pre suf. cs = pre @ suf \<and> version_assign_at suf = Some lit \<and>
        (\<forall>i < length pre. version_assign_at (drop i cs) = None)"
      then obtain p suf where eq: "cs = p @ suf" and v: "version_assign_at suf = Some lit"
        and no: "\<forall>i < length p. version_assign_at (drop i cs) = None" by blast
      have "\<forall>i < length (c # p). version_assign_at (drop i (c # cs)) = None"
      proof (intro allI impI)
        fix i assume i: "i < length (c # p)"
        show "version_assign_at (drop i (c # cs)) = None"
        proof (cases i)
          case 0
          with None show ?thesis by simp
        next
          case (Suc j)
          with i no show ?thesis by simp
        qed
      qed
      moreover from eq have "c # cs = (c # p) @ suf" by simp
      ultimately show "\<exists>pre suf. c # cs = pre @ suf \<and> version_assign_at suf = Some lit \<and>
        (\<forall>i < length pre. version_assign_at (drop i (c # cs)) = None)" using v by blast
    qed
    with None Cons.IH show ?thesis by simp
  qed
qed


lemma parse_file_version:
  "m_version (parse_file rel_path content) =
     (let version0 = (case block_match content of None \<Rightarrow> None
                      | Some block \<Rightarrow> tag_value ''@version'' block)
      in if \<not> truthy version0 then
           (case version_search content of Some lit \<Rightarrow> Some lit | None \<Rightarrow> version0)
         else version0)"
  by (simp add: parse_file_def Let_def)

text \<open>
  C2, as the specification words it, fails. The block comment of the first file holds the
  three tags, and \<^verbatim>\<open>@version\<close> is followed by a colon: the pattern asks for whitespace
  after the keyword, finds no match, and the version is taken from the assignment in the
  code. In the second file nothing follows \<^verbatim>\<open>@version\<close> in the block comment, and again
  the version comes from the code.
\<close>

theorem tag_fields_counterexample:
  "block_match ''--[[\<newline>Core\<newline>@version: 1.0\<newline>@author Bob\<newline>@license MIT\<newline>]]\<newline>local version = '2.0'\<newline>''
     = Some ''\<newline>Core\<newline>@version: 1.0\<newline>@author Bob\<newline>@license MIT\<newline>''
   \<and> py_in ''@version'' ''\<newline>Core\<newline>@version: 1.0\<newline>@author Bob\<newline>@license MIT\<newline>''
   \<and> py_in ''@author'' ''\<newline>Core\<newline>@version: 1.0\<newline>@author Bob\<newline>@license MIT\<newline>''
   \<and> py_in ''@license'' ''\<newline>Core\<newline>@version: 1.0\<newline>@author Bob\<newline>@license MIT\<newline>''
   \<and> spec_tag_value ''@version'' ''\<newline>Core\<newline>@version: 1.0\<newline>@author Bob\<newline>@license MIT\<newline>''
     = Some '': 1.0''
   \<and> m_version (parse_file ''tac/init.lua''
        ''--[[\<newline>Core\<newline>@version: 1.0\<newline>@author Bob\<newline>@license MIT\<newline>]]\<newline>local version = '2.0'\<newline>'')
     = Some ''2.0''
   \<and> block_match ''--[[\<newline>@author Bob\<newline>@license MIT\<newline>@version\<newline>]]\<newline>local version = '2.0'\<newline>''
     = Some ''\<newline>@author Bob\<newline>@license MIT\<newline>@version\<newline>''
   \<and> py_in ''@version'' ''\<newline>@author Bob\<newline>@license MIT\<newline>@version\<newline>''
   \<and> spec_tag_value ''@version'' ''\<newline>@author Bob\<newline>@license MIT\<newline>@version\<newline>'' = Some []
   \<and> m_version (parse_file ''tac/init.lua''
        ''--[[\<newline>@author Bob\<newline>@license MIT\<newline>@version\<newline>]]\<newline>local version = '2.0'\<newline>'')
     = Some ''2.0''"
  by code_simp

text \<open>
  C2, amended. Take a file with a block comment and a tag among \<^verbatim>\<open>@version\<close>, \<^verbatim>\<open>@author\<close>
  and \<^verbatim>\<open>@license\<close>, and look at the leftmost place of the block comment where the tag
  keyword is followed by a whitespace character. When the rest of the line there is not
  blank, the field of the tag is the trimmed rest of that line; for \<^verbatim>\<open>@version\<close> this
  holds whatever assignments the code of the file holds. When there is no such place (so
  when the block comment does not hold the keyword at all), the author and the license
  are absent and the version is what the search for the assignment pattern in the file
  gives, as it is when the file has no block comment: nothing when the pattern matches
  nowhere, and otherwise the quoted literal of its leftmost match. Nothing is said of a
  tag keyword whose line is blank after it.
\<close>

theorem tag_fields_rule:
  "(block_match content = Some block \<longrightarrow>
      (\<forall>after. find_tag ''@version'' block = Some after \<and>
           strip (takeWhile (\<lambda>c. c \<noteq> NL) after) \<noteq> [] \<longrightarrow>
         m_version (parse_file rel_path content) = Some (strip (takeWhile (\<lambda>c. c \<noteq> NL) after))) \<and>
      (\<forall>after. find_tag ''@author'' block = Some after \<and>
           strip (takeWhile (\<lambda>c. c \<noteq> NL) after) \<noteq> [] \<longrightarrow>
         m_author (parse_file rel_path content) = Some (strip (takeWhile (\<lambda>c. c \<noteq> NL) after))) \<and>
      (\<forall>after. find_tag ''@license'' block = Some after \<and>
           strip (takeWhile (\<lambda>c. c \<noteq> NL) after) \<noteq> [] \<longrightarrow>
         m_license (parse_file rel_path content) = Some (strip (takeWhile (\<lambda>c. c \<noteq> NL) after))) \<and>
      (find_tag ''@version'' block = None \<longrightarrow>
         m_version (parse_file rel_path content) = version_search content) \<and>
      (find_tag ''@author'' block = None \<longrightarrow> m_author (parse_file rel_path content) = None) \<and>
      (find_tag ''@license'' block = None \<longrightarrow> m_license (parse_file rel_path content) = None) \<and>
      (\<forall>tag. \<not> py_in tag block \<longrightarrow> find_tag tag block = None))
   \<and> (block_match content = None \<longrightarrow>
         m_version (parse_file rel_path content) = version_search content)
   \<and> (version_search content = Some lit \<longleftrightarrow>
        (\<exists>pre suf. content = pre @ suf \<and> version_assign_at suf = Some lit \<and>
           (\<forall>i < length pre. version_assign_at (drop i content) = None)))"
proof -
  have v: "m_version (parse_file rel_path content) = Some (strip (takeWhile (\<lambda>c. c \<noteq> NL) after))"
    if "block_match content = Some block" "find_tag ''@version'' block = Some after"
      "strip (takeWhile (\<lambda>c. c \<noteq> NL) after) \<noteq> []" for after
  proof -
    from find_tag_Some [OF that(2,3)]
    have tv: "tag_value ''@version'' block = Some (strip (takeWhile (\<lambda>c. c \<noteq> NL) after))" .
    with that(3) have "truthy (tag_value ''@version'' block)" by (simp add: truthy_def)
    with that(1) tv show ?thesis by (simp add: parse_file_version Let_def)
  qed
  have a: "m_author (parse_file rel_path content) = Some (strip (takeWhile (\<lambda>c. c \<noteq> NL) after))"
    if "block_match content = Some block" "find_tag ''@author'' block = Some after"
      "strip (takeWhile (\<lambda>c. c \<noteq> NL) after) \<noteq> []" for after
    using that(1) find_tag_Some [OF that(2,3)] by (simp add: parse_file_def Let_def)
  have l: "m_license (parse_file rel_path content) = Some (strip (takeWhile (\<lambda>c. c \<noteq> NL) after))"
    if "block_match content = Some block" "find_tag ''@license'' block = Some after"
      "strip (takeWhile (\<lambda>c. c \<noteq> NL) after) \<noteq> []" for after
    using that(1) find_tag_Some [OF that(2,3)] by (simp add: parse_file_def Let_def)
  have f: "m_version (parse_file rel_path content) = version_search content"
    if "block_match content = Some block" "find_tag ''@version'' block = None"
    using that(1) find_tag_None [OF that(2)]
    by (simp add: parse_file_version Let_def tag_value_def truthy_def split: option.splits)
  have fa: "m_author (parse_file rel_path content) = None"
    if "block_match content = Some block" "find_tag ''@author'' block = None"
    using that(1) find_tag_None [OF that(2)]
    by (simp add: parse_file_def Let_def tag_value_def)
  have fl: "m_license (parse_file rel_path content) = None"
    if "block_match content = Some block" "find_tag ''@license'' block = None"
    using that(1) find_tag_None [OF that(2)]
    by (simp add: parse_file_def Let_def tag_value_def)
  have n: "m_version (parse_file rel_path content) = version_search content"
    if "block_match content = None"
    using that by (simp add: parse_file_version Let_def truthy_def split: option.splits)
  from v a l f fa fl n find_tag_absent version_search_leftmost [of content lit]
  show ?thesis by blast
qed

theorem tag_fields_rule_witness:
  "block_match ''--[[\<newline>Core\<newline>@versions x\<newline>@version 1.2.0 \<newline>@author Twijn\<newline>@license  MIT\<newline>]]\<newline>local VERSION = '9'\<newline>''
     = Some ''\<newline>Core\<newline>@versions x\<newline>@version 1.2.0 \<newline>@author Twijn\<newline>@license  MIT\<newline>''
   \<and> m_version (parse_file ''tac/init.lua''
        ''--[[\<newline>Core\<newline>@versions x\<newline>@version 1.2.0 \<newline>@author Twijn\<newline>@license  MIT\<newline>]]\<newline>local VERSION = '9'\<newline>'')
       = Some ''1.2.0''
   \<and> m_author (parse_file ''tac/init.lua''
        ''--[[\<newline>Core\<newline>@versions x\<newline>@version 1.2.0 \<newline>@author Twijn\<newline>@license  MIT\<newline>]]\<newline>local VERSION = '9'\<newline>'')
       = Some ''Twijn''
   \<and> m_license (parse_file ''tac/init.lua''
        ''--[[\<newline>Core\<newline>@versions x\<newline>@version 1.2.0 \<newline>@author Twijn\<newline>@license  MIT\<newline>]]\<newline>local VERSION = '9'\<newline>'')
       = Some ''MIT''
   \<and> block_match ''local M = {}\<newline>M.Version = '0.3'\<newline>'' = None
   \<and> m_version (parse_file ''tac/lib/m.lua'' ''local M = {}\<newline>M.Version = '0.3'\<newline>'') = Some ''0.3''
   \<and> block_match ''--[[\<newline>Util\<newline>@author Twijn\<newline>]]\<newline>local version = \"0.4\"\<newline>''
     = Some ''\<newline>Util\<newline>@author Twijn\<newline>''
   \<and> m_version (parse_file ''tac/lib/u.lua''
        ''--[[\<newline>Util\<newline>@author Twijn\<newline>]]\<newline>local version = \"0.4\"\<newline>'') = Some ''0.4''"
proof -
  let ?c = "''--[[\<newline>Core\<newline>@versions x\<newline>@version 1.2.0 \<newline>@author Twijn\<newline>@license  MIT\<newline>]]\<newline>local VERSION = '9'\<newline>''"
  let ?b = "''\<newline>Core\<newline>@versions x\<newline>@version 1.2.0 \<newline>@author Twijn\<newline>@license  MIT\<newline>''"
  let ?d = "''local M = {}\<newline>M.Version = '0.3'\<newline>''"
  let ?e = "''--[[\<newline>Util\<newline>@author Twijn\<newline>]]\<newline>local version = \"0.4\"\<newline>''"
  let ?eb = "''\<newline>Util\<newline>@author Twijn\<newline>''"
  have bm: "block_match ?c = Some ?b" by code_simp
  have fv: "find_tag ''@version'' ?b = Some '' 1.2.0 \<newline>@author Twijn\<newline>@license  MIT\<newline>''"
    by code_simp
  have fa: "find_tag ''@author'' ?b = Some '' Twijn\<newline>@license  MIT\<newline>''" by code_simp
  have fl: "find_tag ''@license'' ?b = Some ''  MIT\<newline>''" by code_simp
  have sv: "strip (takeWhile (\<lambda>c. c \<noteq> NL) '' 1.2.0 \<newline>@author Twijn\<newline>@license  MIT\<newline>'') = ''1.2.0''"
    by code_simp
  have sa: "strip (takeWhile (\<lambda>c. c \<noteq> NL) '' Twijn\<newline>@license  MIT\<newline>'') = ''Twijn''"
    by code_simp
  have sl: "strip (takeWhile (\<lambda>c. c \<noteq> NL) ''  MIT\<newline>'') = ''MIT''" by code_simp
  have no: "block_match ?d = None" by code_simp
  have vs: "version_search ?d = Some ''0.3''" by code_simp
  have be: "block_match ?e = Some ?eb" by code_simp
  have fe: "find_tag ''@version'' ?eb = None" by code_simp
  have ve: "version_search ?e = Some ''0.4''" by code_simp
  from tag_fields_rule [of ?c ?b "''tac/init.lua''"] bm fv fa fl sv sa sl
  have f: "m_version (parse_file ''tac/init.lua'' ?c) = Some ''1.2.0''"
    "m_author (parse_file ''tac/init.lua'' ?c) = Some ''Twijn''"
    "m_license (parse_file ''tac/init.lua'' ?c) = Some ''MIT''"
    by (metis list.distinct(1))+
  from tag_fields_rule [of ?d _ "''tac/lib/m.lua''"] no vs
  have g: "m_version (parse_file ''tac/lib/m.lua'' ?d) = Some ''0.3''" by simp
  from tag_fields_rule [of ?e ?eb "''tac/lib/u.lua''"] be fe ve
  have h: "m_version (parse_file ''tac/lib/u.lua'' ?e) = Some ''0.4''" by simp
  from bm f no g be h show ?thesis by simp
qed

section \<open>Examples\<close>

text \<open>
  C6 does not hold of the code. The segment after \<^verbatim>\<open>@example\<close> below has a first line
  indented by four spaces and a second line indented by two. Taking off the common
  indentation leaves two spaces in front of the first line; the final \<^verbatim>\<open>strip()\<close> of the
  joined text takes these off as well, so the stored example has lost the indentation of
  its first line relative to the second. The second block comment shows the capture of
  the segment: with \<^verbatim>\<open>re.DOTALL\<close> it does not end at the \<^verbatim>\<open>@author\<close> line.
\<close>

theorem example_indentation_lost:
  "split_examples 0 ''Demo\<newline>@example\<newline>    local x = f()\<newline>  print(x)\<newline>''
     = [''Demo\<newline>'', ''    local x = f()\<newline>  print(x)\<newline>'']
   \<and> example_text ''    local x = f()\<newline>  print(x)\<newline>'' = ''    local x = f()\<newline>  print(x)\<newline>''
   \<and> spec_clean_example ''    local x = f()\<newline>  print(x)\<newline>'' = ''  local x = f()\<newline>print(x)''
   \<and> block_examples ''Demo\<newline>@example\<newline>    local x = f()\<newline>  print(x)\<newline>''
     = [''local x = f()\<newline>print(x)'']
   \<and> m_examples (parse_file ''tac/demo.lua''
        ''--[[Demo\<newline>@example\<newline>    local x = f()\<newline>  print(x)\<newline>]]'')
     = [''local x = f()\<newline>print(x)'']
   \<and> block_examples ''Demo\<newline>@example\<newline>  run()\<newline>@author Twijn\<newline>''
     = [''run()\<newline>@author Twijn'']"
  by code_simp

section \<open>The module page\<close>

text \<open>
  C8 does not hold of the code. The renderer escapes the description of the module and
  the examples, and it writes the description, the parameter descriptions and the
  \<^verbatim>\<open>returns\<close> text of a function as they are. Below, the module description \<^verbatim>\<open>d<e\<close> and
  the example \<^verbatim>\<open>a<b\<close> come out with \<^verbatim>\<open>&lt;\<close>, and the three texts of the function come
  out with \<^verbatim>\<open><\<close> and \<^verbatim>\<open>>\<close>.
\<close>

theorem function_texts_not_escaped:
  "example_html ''a<b'' = ''    <pre><code class='language-lua'>a&lt;b</code></pre>\<newline>''
   \<and> function_html ''U''
       \<lparr>f_name = ''M.f'',
        f_params = [\<lparr>p_name = ''t'', p_type = ''T'', p_description = ''x<y''\<rparr>],
        f_returns = ''list<T>'', f_description = ''a<b'', f_line = 3\<rparr>
     = ''    <div class='function'>\<newline>'' @
       ''        <h3><code>M.f(t)</code></h3>\<newline>'' @
       ''        <a href='' @ [SQ] @ ''U#L3'' @ [SQ] @
       '' target='_blank' style='font-size: 0.85em; opacity: 0.7;'>View source</a>\<newline>'' @
       ''        <p>a<b</p>\<newline>'' @
       ''        <div class='params'>\<newline>'' @
       ''            <strong>Parameters:</strong>\<newline>'' @
       ''            <ul>\<newline>'' @
       ''                <li><code>t</code> (T): x<y</li>\<newline>'' @
       ''            </ul>\<newline>'' @
       ''        </div>\<newline>'' @
       ''        <div class='returns'><strong>Returns:</strong> list<T></div>\<newline>'' @
       ''    </div>\<newline>''
   \<and> generate_html_module
       \<lparr>m_name = ''tac.m'', m_path = ''tac/m.lua'', m_description = ''d<e'',
        m_examples = [''a<b''],
        m_functions = [\<lparr>f_name = ''M.f'',
          f_params = [\<lparr>p_name = ''t'', p_type = ''T'', p_description = ''x<y''\<rparr>],
          f_returns = ''list<T>'', f_description = ''a<b'', f_line = 3\<rparr>],
        m_version = None, m_author = None, m_license = None\<rparr>
     = module_head_a @ ''tac.m'' @ module_head_b @ ''tac.m'' @
       ''</h1>\<newline>        <p>d&lt;e</p>\<newline>'' @
       ''        <a href=\"https://github.com/Twijn/tac/blob/main/tac/m.lua\" class=\"github-link\" target=\"_blank\">View on GitHub '' @
       RARR @ ''</a>\<newline>    </div>\<newline>'' @
       ''    <h2>Examples</h2>\<newline>'' @
       example_html ''a<b'' @
       ''    <h2>Functions</h2>\<newline>'' @
       function_html ''https://github.com/Twijn/tac/blob/main/tac/m.lua''
         \<lparr>f_name = ''M.f'',
          f_params = [\<lparr>p_name = ''t'', p_type = ''T'', p_description = ''x<y''\<rparr>],
          f_returns = ''list<T>'', f_description = ''a<b'', f_line = 3\<rparr> @
       module_foot"
proof -
  let ?f = "\<lparr>f_name = ''M.f'',
        f_params = [\<lparr>p_name = ''t'', p_type = ''T'', p_description = ''x<y''\<rparr>],
        f_returns = ''list<T>'', f_description = ''a<b'', f_line = 3\<rparr>"
  have ex: "example_html ''a<b'' = ''    <pre><code class='language-lua'>a&lt;b</code></pre>\<newline>''"
    by code_simp
  have fn: "function_html ''U'' ?f
     = ''    <div class='function'>\<newline>'' @
       ''        <h3><code>M.f(t)</code></h3>\<newline>'' @
       ''        <a href='' @ [SQ] @ ''U#L3'' @ [SQ] @
       '' target='_blank' style='font-size: 0.85em; opacity: 0.7;'>View source</a>\<newline>'' @
       ''        <p>a<b</p>\<newline>'' @
       ''        <div class='params'>\<newline>'' @
       ''            <strong>Parameters:</strong>\<newline>'' @
       ''            <ul>\<newline>'' @
       ''                <li><code>t</code> (T): x<y</li>\<newline>'' @
       ''            </ul>\<newline>'' @
       ''        </div>\<newline>'' @
       ''        <div class='returns'><strong>Returns:</strong> list<T></div>\<newline>'' @
       ''    </div>\<newline>''"
    by code_simp
  have esc: "escape_angle ''d<e'' = ''d&lt;e''"
    by code_simp
  have page: "generate_html_module
       \<lparr>m_name = ''tac.m'', m_path = ''tac/m.lua'', m_description = ''d<e'',
        m_examples = [''a<b''], m_functions = [?f],
        m_version = None, m_author = None, m_license = None\<rparr>
     = module_head_a @ ''tac.m'' @ module_head_b @ ''tac.m'' @
       ''</h1>\<newline>        <p>d&lt;e</p>\<newline>'' @
       ''        <a href=\"https://github.com/Twijn/tac/blob/main/tac/m.lua\" class=\"github-link\" target=\"_blank\">View on GitHub '' @
       RARR @ ''</a>\<newline>    </div>\<newline>'' @
       ''    <h2>Examples</h2>\<newline>'' @
       example_html ''a<b'' @
       ''    <h2>Functions</h2>\<newline>'' @
       function_html ''https://github.com/Twijn/tac/blob/main/tac/m.lua'' ?f @
       module_foot"
    by (simp add: generate_html_module_def module_version_badge_def metadata_html_def
        github_link_html_def github_url_def examples_html_def functions_html_def truthy_def esc)
  from ex fn page show ?thesis by (simp only: simp_thms)
qed

section \<open>The index page\<close>

lemma is_top_not_child: "is_top_ext m \<Longrightarrow> \<not> is_child_ext m"
  by (simp add: is_top_ext_def is_child_ext_def)

lemma map_of_dict_set: "map_of (dict_set d k v) = (map_of d)(k \<mapsto> v)"
  by (induction d k v rule: dict_set.induct) auto

lemma dict_has_map_of: "dict_has d k \<longleftrightarrow> map_of d k \<noteq> None"
  by (simp add: dict_has_def map_of_eq_None_iff)

lemma keys_dict_set: "fst ` set (dict_set d k v) = insert k (fst ` set d)"
  by (induction d k v rule: dict_set.induct) auto

lemma fst_ext_step:
  "fst (ext_step (ps, ch) m) = (if is_top_ext m then dict_set ps (top_key m) m else ps)"
  by (simp add: ext_step_def Let_def is_top_ext_def top_key_def)

lemma snd_ext_step:
  "map_of (snd (ext_step (ps, ch) m)) k = child_upd m k (map_of ch k)"
  by (auto simp: ext_step_def Let_def is_top_ext_def is_child_ext_def top_key_def child_key_def
      child_upd_def map_of_dict_set dict_has_map_of dict_get_def split: option.splits)


lemma fst_foldl_ext_step:
  "fst (foldl ext_step st ms) =
     foldl (\<lambda>ps m. if is_top_ext m then dict_set ps (top_key m) m else ps) (fst st) ms"
proof (induction ms arbitrary: st)
  case Nil
  then show ?case by simp
next
  case (Cons m ms)
  obtain ps ch where st: "st = (ps, ch)" by (cases st)
  show ?case using Cons [of "ext_step st m"] fst_ext_step [of ps ch m] st by simp
qed

lemma foldl_parents_filter:
  assumes "\<not> is_top_ext c"
  shows "foldl (\<lambda>ps m. if is_top_ext m then dict_set ps (top_key m) m else ps) ps
           (filter (\<lambda>m. m \<noteq> c) ms)
         = foldl (\<lambda>ps m. if is_top_ext m then dict_set ps (top_key m) m else ps) ps ms"
  using assms by (induction ms arbitrary: ps) auto

lemma parents_filter:
  assumes "\<not> is_top_ext c"
  shows "fst (organize (filter (\<lambda>m. m \<noteq> c) ms)) = fst (organize ms)"
  unfolding organize_def fst_foldl_ext_step using foldl_parents_filter [OF assms] by simp

lemma parent_keys:
  "k \<in> fst ` set (foldl (\<lambda>ps m. if is_top_ext m then dict_set ps (top_key m) m else ps) ps ms)
   \<Longrightarrow> k \<in> fst ` set ps \<or> (\<exists>p \<in> set ms. is_top_ext p \<and> top_key p = k)"
proof (induction ms arbitrary: ps)
  case Nil
  then show ?case by simp
next
  case (Cons m ms)
  from Cons.IH [OF Cons.prems [simplified]]
  show ?case by (auto simp: keys_dict_set split: if_splits)
qed

lemma values_dict_set:
  "x \<in> snd ` set (dict_set d k v) \<Longrightarrow> x = v \<or> x \<in> snd ` set d"
  by (induction d k v rule: dict_set.induct) (auto split: if_splits)

lemma parent_values:
  "p \<in> snd ` set (foldl (\<lambda>ps m. if is_top_ext m then dict_set ps (top_key m) m else ps) ps ms)
   \<Longrightarrow> p \<in> snd ` set ps \<or> (p \<in> set ms \<and> is_top_ext p)"
proof (induction ms arbitrary: ps)
  case Nil
  then show ?case by simp
next
  case (Cons m ms)
  let ?ps = "if is_top_ext m then dict_set ps (top_key m) m else ps"
  from Cons.prems have "p \<in> snd ` set (foldl
      (\<lambda>ps m. if is_top_ext m then dict_set ps (top_key m) m else ps) ?ps ms)" by simp
  from Cons.IH [OF this] consider "p \<in> snd ` set ?ps" | "p \<in> set ms \<and> is_top_ext p" by blast
  then show ?case
  proof cases
    case 1
    show ?thesis
    proof (cases "is_top_ext m")
      case True
      with 1 have "p \<in> snd ` set (dict_set ps (top_key m) m)" by simp
      from values_dict_set [OF this] True show ?thesis by auto
    next
      case False
      with 1 show ?thesis by simp
    qed
  next
    case 2
    then show ?thesis by simp
  qed
qed

lemma children_agree:
  assumes c: "is_child_ext c" "child_key c = kc" 
    and ag: "\<forall>k. k \<noteq> kc \<longrightarrow> map_of (snd st) k = map_of (snd st') k"
  shows "\<forall>k. k \<noteq> kc \<longrightarrow>
     map_of (snd (foldl ext_step st (filter (\<lambda>m. m \<noteq> c) ms))) k
     = map_of (snd (foldl ext_step st' ms)) k"
  using ag
proof (induction ms arbitrary: st st')
  case Nil
  then show ?case by simp
next
  case (Cons m ms)
  obtain ps ch where st: "st = (ps, ch)" by (cases st)
  obtain ps' ch' where st': "st' = (ps', ch')" by (cases st')
  show ?case
  proof (cases "m = c")
    case True
    have "\<forall>k. k \<noteq> kc \<longrightarrow> map_of (snd st) k = map_of (snd (ext_step st' m)) k"
      using Cons.prems c True is_top_not_child [of c]
      by (auto simp: st st' snd_ext_step child_upd_def)
    from Cons.IH [OF this] True show ?thesis by simp
  next
    case False
    have "\<forall>k. k \<noteq> kc \<longrightarrow> map_of (snd (ext_step st m)) k = map_of (snd (ext_step st' m)) k"
      using Cons.prems by (simp add: st st' snd_ext_step)
    from Cons.IH [OF this] False show ?thesis by simp
  qed
qed

lemma children_get_filter:
  assumes "is_child_ext c" "k \<noteq> child_key c"
  shows "dict_get (snd (organize (filter (\<lambda>m. m \<noteq> c) ms))) k = dict_get (snd (organize ms)) k"
  using children_agree [OF assms(1) refl, of "([], [])" "([], [])" ms] assms(2)
  by (simp add: organize_def dict_get_def)


lemma values_dict_set_new:
  "\<not> dict_has d k \<Longrightarrow>
     set (concat (map snd (dict_set d k []))) = set (concat (map snd d))"
  for d :: "(string \<times> module list) list"
  by (induction d k "[] :: module list" rule: dict_set.induct) (auto simp: dict_has_def)

lemma values_dict_set_append:
  "dict_has d k \<Longrightarrow>
     set (concat (map snd (dict_set d k (dict_get d k @ [m]))))
       = insert m (set (concat (map snd d)))"
proof (induction d)
  case Nil
  then show ?case by (simp add: dict_has_def)
next
  case (Cons kv d)
  obtain k' v' where kv: "kv = (k', v')" by (cases kv)
  show ?case
  proof (cases "k' = k")
    case True
    then show ?thesis by (auto simp: kv dict_get_def)
  next
    case False
    with Cons.prems kv have h: "dict_has d k" by (auto simp: dict_has_def)
    from False kv have g: "dict_get (kv # d) k = dict_get d k" by (simp add: dict_get_def)
    from Cons.IH [OF h] False kv g show ?thesis by auto
  qed
qed

lemma values_ext_step:
  "set (concat (map snd (snd (ext_step (ps, ch) m))))
     = set (concat (map snd ch)) \<union> (if is_child_ext m then {m} else {})"
proof -
  let ?k = "child_key m"
  let ?ch0 = "if \<not> dict_has ch ?k then dict_set ch ?k [] else ch"
  have has: "dict_has ?ch0 ?k" by (auto simp: dict_has_def keys_dict_set)
  have v0: "set (concat (map snd ?ch0)) = set (concat (map snd ch))"
  proof (cases "dict_has ch ?k")
    case True
    then show ?thesis by simp
  next
    case False
    from values_dict_set_new [OF False] False show ?thesis by simp
  qed
  have child: "set (concat (map snd (dict_set ?ch0 ?k (dict_get ?ch0 ?k @ [m]))))
      = insert m (set (concat (map snd ch)))"
    using values_dict_set_append [OF has, of m] v0 by simp
  show ?thesis
  proof (cases "is_child_ext m")
    case True
    then have "snd (ext_step (ps, ch) m) = dict_set ?ch0 ?k (dict_get ?ch0 ?k @ [m])"
      by (simp add: ext_step_def Let_def is_child_ext_def child_key_def)
    with child True show ?thesis by simp
  next
    case False
    show ?thesis
    proof (cases "is_top_ext m")
      case True
      then have "snd (ext_step (ps, ch) m)
          = (if \<not> dict_has ch (top_key m) then dict_set ch (top_key m) [] else ch)"
        by (simp add: ext_step_def Let_def is_top_ext_def top_key_def)
      moreover have "set (concat (map snd
          (if \<not> dict_has ch (top_key m) then dict_set ch (top_key m) [] else ch)))
          = set (concat (map snd ch))"
      proof (cases "dict_has ch (top_key m)")
        case True
        then show ?thesis by simp
      next
        case nh: False
        from values_dict_set_new [OF nh] nh show ?thesis by simp
      qed
      ultimately show ?thesis using False by simp
    next
      case nt: False
      with False have "ext_step (ps, ch) m = (ps, ch)"
        by (auto simp: ext_step_def Let_def is_top_ext_def is_child_ext_def)
      with False show ?thesis by simp
    qed
  qed
qed

lemma values_foldl:
  "set (concat (map snd (snd (foldl ext_step st ms))))
     = set (concat (map snd (snd st))) \<union> {m \<in> set ms. is_child_ext m}"
proof (induction ms arbitrary: st)
  case Nil
  then show ?case by simp
next
  case (Cons m ms)
  obtain ps ch where st: "st = (ps, ch)" by (cases st)
  from Cons [of "ext_step st m"] values_ext_step [of ps ch m] st
  show ?case by auto
qed

lemma children_values: 
  "set (concat (map snd (snd (organize ms)))) = {m \<in> set ms. is_child_ext m}"
  using values_foldl [of "([], [])" ms] by (simp add: organize_def)

lemma child_upd_keyed:
  assumes "\<forall>l. v = Some l \<longrightarrow> (\<forall>x \<in> set l. child_key x = k)" "child_upd m k v = Some l"
  shows "\<forall>x \<in> set l. child_key x = k"
proof (cases v)
  case None
  with assms(2) show ?thesis by (auto simp: child_upd_def split: if_splits)
next
  case (Some l0)
  with assms(1) have "\<forall>x \<in> set l0. child_key x = k" by simp
  with assms(2) Some show ?thesis by (auto simp: child_upd_def split: if_splits)
qed

lemma children_keyed:
  assumes "\<forall>k l. map_of (snd st) k = Some l \<longrightarrow> (\<forall>x \<in> set l. child_key x = k)"
  shows "\<forall>k l. map_of (snd (foldl ext_step st ms)) k = Some l \<longrightarrow> (\<forall>x \<in> set l. child_key x = k)"
  using assms
proof (induction ms arbitrary: st)
  case Nil
  then show ?case by simp
next
  case (Cons m ms)
  obtain ps ch where st: "st = (ps, ch)" by (cases st)
  have "\<forall>k l. map_of (snd (ext_step st m)) k = Some l \<longrightarrow> (\<forall>x \<in> set l. child_key x = k)"
  proof (intro allI impI)
    fix k l assume "map_of (snd (ext_step st m)) k = Some l"
    then have "child_upd m k (map_of ch k) = Some l" by (simp add: st snd_ext_step)
    moreover from Cons.prems st
    have "\<forall>l. map_of ch k = Some l \<longrightarrow> (\<forall>x \<in> set l. child_key x = k)" by simp
    ultimately show "\<forall>x \<in> set l. child_key x = k" by (rule child_upd_keyed [rotated])
  qed
  from Cons.IH [OF this] show ?case by simp
qed

lemma dict_get_child_key:
  assumes "x \<in> set (dict_get (snd (organize ms)) k)"
  shows "child_key x = k"
proof (cases "map_of (snd (organize ms)) k")
  case None
  with assms show ?thesis by (simp add: dict_get_def)
next
  case (Some l)
  with assms have "x \<in> set l" by (simp add: dict_get_def)
  with Some children_keyed [of "([], [])" ms] show ?thesis by (auto simp: organize_def)
qed


lemma split_on_no_sep: "sep \<notin> set s \<Longrightarrow> split_on sep s = [s]"
  by (induction s) auto

lemma split_on_append_sep:
  "sep \<notin> set x \<Longrightarrow> split_on sep (x @ sep # y) = x # split_on sep y"
  by (induction x) auto

lemma split_on_single: "length (split_on sep s) = 1 \<Longrightarrow> sep \<notin> set s"
proof (induction s)
  case Nil
  then show ?case by simp
next
  case (Cons c cs)
  obtain w ws where w: "split_on sep cs = w # ws"
    using split_on_not_Nil [of sep cs] by (cases "split_on sep cs") auto
  from Cons.prems w have ne: "c \<noteq> sep" by (auto split: if_splits)
  with Cons.prems w have "length (split_on sep cs) = 1" by simp
  with Cons.IH ne show ?case by simp
qed

lemma orphan_is_child:
  assumes "m_path c = ''tac/extensions/'' @ X @ ''/'' @ Y" "CHR ''/'' \<notin> set X" "CHR ''/'' \<notin> set Y"
  shows "is_child_ext c \<and> child_key c = ''tac.extensions.'' @ X \<and> \<not> is_top_ext c
         \<and> \<not> is_core c \<and> \<not> is_library c \<and> \<not> is_command c"
proof -
  have sp: "split_on CHR ''/'' (X @ CHR ''/'' # Y) = [X, Y]"
    using split_on_append_sep [OF assms(2), of Y] split_on_no_sep [OF assms(3)] by simp
  from assms(1) have d: "drop 15 (m_path c) = X @ CHR ''/'' # Y" by simp
  from assms(1) have st: "startswith (m_path c) ''tac/extensions/''"
    by (simp add: startswith_def)
  from assms(1) have no: "\<not> startswith (m_path c) ''tac/core/''"
    "\<not> startswith (m_path c) ''tac/lib/''" "\<not> startswith (m_path c) ''tac/commands/''"
    by (simp_all add: startswith_def)
  from st d sp no show ?thesis
    by (simp add: is_child_ext_def is_top_ext_def child_key_def is_core_def is_library_def
        is_command_def)
qed

lemma top_ext_path:
  assumes "is_top_ext p"
  shows "\<exists>P. m_path p = ''tac/extensions/'' @ P \<and> CHR ''/'' \<notin> set P \<and>
           top_key p = ''tac.extensions.'' @ replace P ''.lua'' []"
proof -
  from assms obtain P where P: "m_path p = ''tac/extensions/'' @ P"
    by (auto simp: is_top_ext_def startswith_def prefix_def)
  then have d: "drop 15 (m_path p) = P" by simp
  with assms have "length (split_on CHR ''/'' P) = 1" by (simp add: is_top_ext_def)
  then have no: "CHR ''/'' \<notin> set P" by (rule split_on_single)
  then have "split_on CHR ''/'' P = [P]" by (rule split_on_no_sep)
  with d have "top_key p = ''tac.extensions.'' @ replace P ''.lua'' []"
    by (simp add: top_key_def)
  with P no show ?thesis by blast
qed

lemma other_filter:
  assumes c: "is_child_ext c" "\<not> is_core c" "\<not> is_command c" and mem: "c \<in> set ms"
  shows "other_modules (filter (\<lambda>m. m \<noteq> c) ms) = other_modules ms"
    and "c \<notin> set (other_modules ms)"
proof -
  let ?ms' = "filter (\<lambda>m. m \<noteq> c) ms"
  have nt: "\<not> is_top_ext c" using c(1) is_top_not_child by blast
  have cat: "set (categorized xs) = {m \<in> set xs. is_core m} \<union> {m \<in> set xs. is_command m}
      \<union> snd ` set (fst (organize xs)) \<union> {m \<in> set xs. is_child_ext m}" for xs
    using children_values [of xs] by (auto simp: categorized_def)
  have in_cat: "c \<in> set (categorized ms)" using c(1) mem unfolding cat by simp
  have same: "m \<in> set (categorized ?ms') \<longleftrightarrow> m \<in> set (categorized ms)" if "m \<noteq> c" for m
    unfolding cat parents_filter [OF nt] using that by auto
  have "other_modules ?ms' = filter (\<lambda>m. m \<noteq> c \<and> m \<notin> set (categorized ?ms')) ms"
    by (simp add: other_modules_def)
  also have "\<dots> = filter (\<lambda>m. m \<notin> set (categorized ms)) ms"
  proof (rule filter_cong [OF refl])
    fix m assume "m \<in> set ms"
    show "(m \<noteq> c \<and> m \<notin> set (categorized ?ms')) = (m \<notin> set (categorized ms))"
      using same [of m] in_cat by (cases "m = c") auto
  qed
  finally show "other_modules ?ms' = other_modules ms" by (simp add: other_modules_def)
  from in_cat show "c \<notin> set (other_modules ms)" by (simp add: other_modules_def)
qed

lemma filter_neq_pred: "\<not> P c \<Longrightarrow> filter (\<lambda>m. m \<noteq> c \<and> P m) ms = filter P ms"
  by (induction ms) auto

lemma categories_filter:
  assumes "is_child_ext c" "\<not> is_core c" "\<not> is_library c" "\<not> is_command c" "c \<in> set ms"
  shows "categories (filter (\<lambda>m. m \<noteq> c) ms) = categories ms"
  using other_filter(1) [OF assms(1,2,4,5)] assms(2,3,4)
  by (simp add: categories_def filter_neq_pred)

lemma extensions_filter:
  assumes c: "is_child_ext c" and nokey: "\<forall>p \<in> set ms. is_top_ext p \<longrightarrow> top_key p \<noteq> child_key c"
  shows "extensions_html (filter (\<lambda>m. m \<noteq> c) ms) = extensions_html ms"
proof -
  let ?ms' = "filter (\<lambda>m. m \<noteq> c) ms"
  have nt: "\<not> is_top_ext c" using c is_top_not_child by blast
  have sp: "sorted_parents ?ms' = sorted_parents ms"
    by (simp add: sorted_parents_def parents_filter [OF nt])
  have keys: "fst p \<noteq> child_key c" if "p \<in> set (sorted_parents ms)" for p
  proof -
    from that have "fst p \<in> fst ` set (fst (organize ms))" by (auto simp: sorted_parents_def)
    then have "\<exists>q \<in> set ms. is_top_ext q \<and> top_key q = fst p"
      using parent_keys [of "fst p" "[]" ms] by (simp add: organize_def fst_foldl_ext_step)
    with nokey show ?thesis by auto
  qed
  have "parent_html (snd (organize ?ms')) p = parent_html (snd (organize ms)) p"
    if "p \<in> set (sorted_parents ms)" for p
    using keys [OF that] children_get_filter [OF c, of "fst p" ms]
    by (simp add: parent_html_def)
  then have "map (parent_html (snd (organize ?ms'))) (sorted_parents ms)
      = map (parent_html (snd (organize ms))) (sorted_parents ms)"
    by (intro map_cong [OF refl])
  then show ?thesis unfolding extensions_html_def sp by (simp only:)
qed


lemma index_filter:
  assumes "is_child_ext c" "\<not> is_core c" "\<not> is_library c" "\<not> is_command c"
    and "\<forall>p \<in> set ms. is_top_ext p \<longrightarrow> top_key p \<noteq> child_key c"
  shows "generate_html_index (filter (\<lambda>m. m \<noteq> c) ms) = generate_html_index ms"
proof (cases "c \<in> set ms")
  case True
  from categories_filter [OF assms(1-4) True] extensions_filter [OF assms(1,5)]
  show ?thesis by (simp add: generate_html_index_def)
next
  case False
  then have "filter (\<lambda>m. m \<noteq> c) ms = ms" by (induction ms) auto
  then show ?thesis by simp
qed

text \<open>
  C10, as it is worded, fails. The key of a parent entry is the file name with every
  \<^verbatim>\<open>.lua\<close> taken out, so the file \<^verbatim>\<open>tac/extensions/foo.lua.lua\<close> is the parent \<^verbatim>\<open>foo\<close>. In
  the list below no module has the path \<^verbatim>\<open>tac/extensions/foo.lua\<close>, and the module
  \<^verbatim>\<open>tac/extensions/foo/bar.lua\<close> is rendered as a child all the same.
\<close>

theorem orphan_child_counterexample:
  "sorted_parents
     [\<lparr>m_name = ''tac.extensions.foo'', m_path = ''tac/extensions/foo.lua.lua'',
       m_description = ''Foo'', m_examples = [], m_functions = [], m_version = None,
       m_author = None, m_license = None\<rparr>,
      \<lparr>m_name = ''tac.extensions.foo.bar'', m_path = ''tac/extensions/foo/bar.lua'',
       m_description = ''Bar'', m_examples = [], m_functions = [], m_version = None,
       m_author = None, m_license = None\<rparr>]
     = [(''tac.extensions.foo'',
         \<lparr>m_name = ''tac.extensions.foo'', m_path = ''tac/extensions/foo.lua.lua'',
          m_description = ''Foo'', m_examples = [], m_functions = [], m_version = None,
          m_author = None, m_license = None\<rparr>)]
   \<and> extensions_html
     [\<lparr>m_name = ''tac.extensions.foo'', m_path = ''tac/extensions/foo.lua.lua'',
       m_description = ''Foo'', m_examples = [], m_functions = [], m_version = None,
       m_author = None, m_license = None\<rparr>,
      \<lparr>m_name = ''tac.extensions.foo.bar'', m_path = ''tac/extensions/foo/bar.lua'',
       m_description = ''Bar'', m_examples = [], m_functions = [], m_version = None,
       m_author = None, m_license = None\<rparr>]
     = ''    <h2>Extension Modules</h2>\<newline>'' @
       ''    <div class=\"module\">\<newline>'' @
       ''        <h3><a href=\"tac_extensions_foo.html\">tac.extensions.foo</a></h3>\<newline>'' @
       ''        <p>Foo</p>\<newline>'' @
       ''        <div style=\"margin-left: 2rem; margin-top: 0.75rem; border-left: 2px solid var(--border); padding-left: 1rem;\">\<newline>'' @
       ''            <div style=\"margin: 0.5rem 0;\">\<newline>'' @
       ''                <strong><a href=\"tac_extensions_foo_bar.html\">bar</a></strong>\<newline>'' @
       ''                <span style=\"opacity: 0.7; font-size: 0.9em;\"> - Bar</span>\<newline>'' @
       ''            </div>\<newline>'' @
       ''        </div>\<newline>'' @
       ''    </div>\<newline>''"
  by code_simp

text \<open>
  C10, amended. Let a module have a path \<^verbatim>\<open>tac/extensions/X/Y\<close> with no further slash in
  \<^verbatim>\<open>X\<close> and \<^verbatim>\<open>Y\<close>, and let no module of the list be a top-level extension file, of a path
  \<^verbatim>\<open>tac/extensions/P\<close> without a further slash, such that \<^verbatim>\<open>P\<close> with every \<^verbatim>\<open>.lua\<close> taken out
  is \<^verbatim>\<open>X\<close>. Then the module is in none of the categories that are rendered, not in
  \<^verbatim>\<open>Other Modules\<close> either, and among the children of no parent entry; and the page is the
  page of the list without the module.
\<close>

theorem orphan_child_not_rendered:
  "m_path c = ''tac/extensions/'' @ X @ ''/'' @ Y \<and> CHR ''/'' \<notin> set X \<and> CHR ''/'' \<notin> set Y \<and>
   (\<forall>p \<in> set modules. \<forall>P. m_path p = ''tac/extensions/'' @ P \<and> CHR ''/'' \<notin> set P \<longrightarrow>
        replace P ''.lua'' [] \<noteq> X)
   \<longrightarrow> (\<forall>cat \<in> set (categories modules). c \<notin> set (snd cat))
     \<and> c \<notin> set (other_modules modules)
     \<and> (\<forall>p \<in> set (sorted_parents modules). c \<notin> set (dict_get (snd (organize modules)) (fst p)))
     \<and> generate_html_index modules = generate_html_index (filter (\<lambda>m. m \<noteq> c) modules)"
proof
  assume h: "m_path c = ''tac/extensions/'' @ X @ ''/'' @ Y \<and> CHR ''/'' \<notin> set X \<and>
    CHR ''/'' \<notin> set Y \<and>
    (\<forall>p \<in> set modules. \<forall>P. m_path p = ''tac/extensions/'' @ P \<and> CHR ''/'' \<notin> set P \<longrightarrow>
        replace P ''.lua'' [] \<noteq> X)"
  then have path: "m_path c = ''tac/extensions/'' @ X @ ''/'' @ Y"
    and nx: "CHR ''/'' \<notin> set X" and ny: "CHR ''/'' \<notin> set Y"
    and np: "\<forall>p \<in> set modules. \<forall>P. m_path p = ''tac/extensions/'' @ P \<and> CHR ''/'' \<notin> set P \<longrightarrow>
        replace P ''.lua'' [] \<noteq> X"
    by blast+
  from orphan_is_child [OF path nx ny]
  have ch: "is_child_ext c" and key: "child_key c = ''tac.extensions.'' @ X"
    and nt: "\<not> is_top_ext c" and nc: "\<not> is_core c" and nl: "\<not> is_library c"
    and nm: "\<not> is_command c" by blast+
  have nokey: "\<forall>p \<in> set modules. is_top_ext p \<longrightarrow> top_key p \<noteq> child_key c"
  proof (intro ballI impI)
    fix p assume p: "p \<in> set modules" "is_top_ext p"
    from top_ext_path [OF p(2)] obtain P where P: "m_path p = ''tac/extensions/'' @ P"
      "CHR ''/'' \<notin> set P" "top_key p = ''tac.extensions.'' @ replace P ''.lua'' []" by blast
    with np p(1) have "replace P ''.lua'' [] \<noteq> X" by blast
    with P(3) key show "top_key p \<noteq> child_key c" by simp
  qed
  have other: "c \<notin> set (other_modules modules)"
  proof (cases "c \<in> set modules")
    case True
    from other_filter(2) [OF ch nc nm True] show ?thesis .
  next
    case False
    then show ?thesis by (simp add: other_modules_def)
  qed
  have cats: "\<forall>cat \<in> set (categories modules). c \<notin> set (snd cat)"
    using other nc nl nm by (auto simp: categories_def split: if_splits)
  have kids: "\<forall>p \<in> set (sorted_parents modules).
      c \<notin> set (dict_get (snd (organize modules)) (fst p))"
  proof
    fix p assume p: "p \<in> set (sorted_parents modules)"
    then have "fst p \<in> fst ` set (fst (organize modules))" by (auto simp: sorted_parents_def)
    then have "\<exists>q \<in> set modules. is_top_ext q \<and> top_key q = fst p"
      using parent_keys [of "fst p" "[]" modules] by (simp add: organize_def fst_foldl_ext_step)
    with nokey have "fst p \<noteq> child_key c" by auto
    with dict_get_child_key [of c modules "fst p"]
    show "c \<notin> set (dict_get (snd (organize modules)) (fst p))" by auto
  qed
  from index_filter [OF ch nc nl nm nokey]
  have page: "generate_html_index modules = generate_html_index (filter (\<lambda>m. m \<noteq> c) modules)"
    by simp
  from cats other kids page
  show "(\<forall>cat \<in> set (categories modules). c \<notin> set (snd cat))
     \<and> c \<notin> set (other_modules modules)
     \<and> (\<forall>p \<in> set (sorted_parents modules). c \<notin> set (dict_get (snd (organize modules)) (fst p)))
     \<and> generate_html_index modules = generate_html_index (filter (\<lambda>m. m \<noteq> c) modules)"
    by blast
qed

theorem orphan_child_not_rendered_witness:
  "generate_html_index
     [\<lparr>m_name = ''tac.core.a'', m_path = ''tac/core/a.lua'', m_description = ''A'',
       m_examples = [], m_functions = [], m_version = None, m_author = None, m_license = None\<rparr>,
      \<lparr>m_name = ''tac.extensions.baz.qux'', m_path = ''tac/extensions/baz/qux.lua'',
       m_description = ''Q'', m_examples = [], m_functions = [], m_version = None,
       m_author = None, m_license = None\<rparr>,
      \<lparr>m_name = ''tac.extensions.foo'', m_path = ''tac/extensions/foo.lua'',
       m_description = ''F'', m_examples = [], m_functions = [], m_version = None,
       m_author = None, m_license = None\<rparr>]
   = generate_html_index
     [\<lparr>m_name = ''tac.core.a'', m_path = ''tac/core/a.lua'', m_description = ''A'',
       m_examples = [], m_functions = [], m_version = None, m_author = None, m_license = None\<rparr>,
      \<lparr>m_name = ''tac.extensions.foo'', m_path = ''tac/extensions/foo.lua'',
       m_description = ''F'', m_examples = [], m_functions = [], m_version = None,
       m_author = None, m_license = None\<rparr>]
   \<and> \<lparr>m_name = ''tac.extensions.baz.qux'', m_path = ''tac/extensions/baz/qux.lua'',
       m_description = ''Q'', m_examples = [], m_functions = [], m_version = None,
       m_author = None, m_license = None\<rparr>
     \<notin> set (other_modules
     [\<lparr>m_name = ''tac.core.a'', m_path = ''tac/core/a.lua'', m_description = ''A'',
       m_examples = [], m_functions = [], m_version = None, m_author = None, m_license = None\<rparr>,
      \<lparr>m_name = ''tac.extensions.baz.qux'', m_path = ''tac/extensions/baz/qux.lua'',
       m_description = ''Q'', m_examples = [], m_functions = [], m_version = None,
       m_author = None, m_license = None\<rparr>,
      \<lparr>m_name = ''tac.extensions.foo'', m_path = ''tac/extensions/foo.lua'',
       m_description = ''F'', m_examples = [], m_functions = [], m_version = None,
       m_author = None, m_license = None\<rparr>])"
proof -
  let ?a = "\<lparr>m_name = ''tac.core.a'', m_path = ''tac/core/a.lua'', m_description = ''A'',
       m_examples = [], m_functions = [], m_version = None, m_author = None, m_license = None\<rparr>"
  let ?o = "\<lparr>m_name = ''tac.extensions.baz.qux'', m_path = ''tac/extensions/baz/qux.lua'',
       m_description = ''Q'', m_examples = [], m_functions = [], m_version = None,
       m_author = None, m_license = None\<rparr>"
  let ?p = "\<lparr>m_name = ''tac.extensions.foo'', m_path = ''tac/extensions/foo.lua'',
       m_description = ''F'', m_examples = [], m_functions = [], m_version = None,
       m_author = None, m_license = None\<rparr>"
  have path: "m_path ?o = ''tac/extensions/'' @ ''baz'' @ ''/'' @ ''qux.lua''" by simp
  have nx: "CHR ''/'' \<notin> set ''baz''" by simp
  have ny: "CHR ''/'' \<notin> set ''qux.lua''" by simp
  have foo: "replace ''foo.lua'' ''.lua'' [] = ''foo''" by code_simp
  have np: "\<forall>p \<in> set [?a, ?o, ?p]. \<forall>P. m_path p = ''tac/extensions/'' @ P \<and> CHR ''/'' \<notin> set P \<longrightarrow>
        replace P ''.lua'' [] \<noteq> ''baz''"
    using foo by auto
  have flt: "filter (\<lambda>m. m \<noteq> ?o) [?a, ?o, ?p] = [?a, ?p]" by simp
  from orphan_child_not_rendered [of ?o "''baz''" "''qux.lua''" "[?a, ?o, ?p]"] path nx ny np
  have "?o \<notin> set (other_modules [?a, ?o, ?p])"
    and "generate_html_index [?a, ?o, ?p] = generate_html_index (filter (\<lambda>m. m \<noteq> ?o) [?a, ?o, ?p])"
    by blast+
  then show ?thesis unfolding flt by simp
qed

section \<open>The file filter\<close>

lemma butlast_in_join:
  "d \<in> set (butlast xs) \<Longrightarrow> \<exists>pre post. join sep xs = pre @ d @ sep @ post"
proof (induction sep xs rule: join.induct)
  case (1 sep)
  then show ?case by simp
next
  case (2 sep x)
  then show ?case by simp
next
  case (3 sep x y ys)
  from "3.prems" consider "d = x" | "d \<in> set (butlast (y # ys))" by auto
  then show ?case
  proof cases
    case 1
    then have "join sep (x # y # ys) = [] @ d @ sep @ join sep (y # ys)" by simp
    then show ?thesis by blast
  next
    case 2
    with "3.IH" obtain pre post where "join sep (y # ys) = pre @ d @ sep @ post" by blast
    then have "join sep (x # y # ys) = (x @ sep @ pre) @ d @ sep @ post" by simp
    then show ?thesis by blast
  qed
qed

lemma dir_in_path:
  assumes "d \<in> set (path_dirs p)"
  shows "py_in (d @ ''/'') p"
proof -
  from assms butlast_in_join [of d "split_on CHR ''/'' p" "''/''"]
  obtain pre post where "join ''/'' (split_on CHR ''/'' p) = pre @ d @ ''/'' @ post"
    unfolding path_dirs_def by blast
  then have "p = pre @ (d @ ''/'') @ post" by (simp add: join_split_on)
  then show ?thesis unfolding py_in_iff by blast
qed

lemma in_skip_dir_iff:
  "in_skip_dir p \<longleftrightarrow> py_in ''data/'' p \<or> py_in ''test/'' p \<or> py_in ''.git'' p"
  by (simp add: in_skip_dir_def skip_dirs_def)

lemma top_level_lib_iff: "top_level_lib p \<longleftrightarrow> startswith p ''lib/''"
  by (cases p) (auto simp: top_level_lib_def startswith_def)

lemma filter_files_filter:
  "filter_files fs = filter (\<lambda>p. \<not> (in_skip_dir p \<or> top_level_lib p)) fs"
  by (induction fs) auto

lemma spec_excluded_skipped:
  assumes "spec_excluded p"
  shows "in_skip_dir p \<or> top_level_lib p"
proof (cases "startswith p ''lib/'' \<and> \<not> startswith p ''tac/lib/''")
  case True
  then show ?thesis by (simp add: top_level_lib_def)
next
  case False
  with assms obtain d where d: "d \<in> set (path_dirs p)"
    and nm: "d = ''data'' \<or> d = ''test'' \<or> d = ''.git''"
    by (auto simp: spec_excluded_def list_ex_iff)
  from dir_in_path [OF d] nm
  have "py_in ''data/'' p \<or> py_in ''test/'' p \<or> py_in ''.git/'' p" by auto
  moreover have "py_in ''.git/'' p \<Longrightarrow> py_in ''.git'' p"
  proof -
    assume "py_in ''.git/'' p"
    then obtain pre post where "p = pre @ ''.git/'' @ post" unfolding py_in_iff by blast
    then have "p = pre @ ''.git'' @ (''/'' @ post)" by simp
    then show ?thesis unfolding py_in_iff by blast
  qed
  ultimately show ?thesis by (auto simp: in_skip_dir_iff)
qed

text \<open>
  C9 does not hold of the code. The comments of \<^verbatim>\<open>generate\<close> say that the files of the
  \<^verbatim>\<open>data\<close> and \<^verbatim>\<open>test\<close> directories are left out, and the loop tests whether \<^verbatim>\<open>data/\<close>,
  \<^verbatim>\<open>test/\<close> or \<^verbatim>\<open>.git\<close> is a substring of the path. The two files below have no directory
  named \<^verbatim>\<open>data\<close>, \<^verbatim>\<open>test\<close> or \<^verbatim>\<open>.git\<close> and are not under \<^verbatim>\<open>lib/\<close>; the filter drops both,
  the first for the directory \<^verbatim>\<open>latest\<close> and the second for the directory \<^verbatim>\<open>userdata\<close>, and
  keeps the third file.
\<close>

theorem file_filter_substring_slip:
  "\<not> spec_excluded ''tac/extensions/latest/init.lua''
   \<and> \<not> spec_excluded ''tac/core/userdata/a.lua''
   \<and> \<not> spec_excluded ''tac/core/a.lua''
   \<and> filter_files
        [''tac/core/a.lua'', ''tac/core/userdata/a.lua'', ''tac/extensions/latest/init.lua'']
     = [''tac/core/a.lua'']"
  by (simp add: spec_excluded_def path_dirs_def startswith_def in_skip_dir_def skip_dirs_def
      top_level_lib_def)

end
